theory Spec2Isabelle
  imports Main "HOL-Library.List_Lexorder" "HOL-Library.Char_ord"
begin

section \<open>Exceptions and the threading of the store\<close>

text \<open>
  The ingestion code of \<^verbatim>\<open>forchecktoporov/data_ingestion.py\<close> works on a
  Django database. Each Python exception that the ingestion can meet is a value of
  \<open>error\<close>; an operation takes the state and returns its outcome together with the
  state it leaves behind, so that what was written before a failure stays written (the
  code opens no transaction).
\<close>

datatype error = KeyError | ValueError | AssertionError | IntegrityError | MultipleObjectsReturned

type_synonym ('s, 'a) action = "'s \<Rightarrow> (error + 'a) \<times> 's"

definition ret :: "'a \<Rightarrow> ('s, 'a) action" where
  "ret a s = (Inr a, s)"

definition lift :: "error + 'a \<Rightarrow> ('s, 'a) action" where
  "lift r s = (r, s)"

text \<open>One statement after another: the second runs on the value and the state that the
  first has left, unless the first has raised.\<close>

definition bind_result :: "(error + 'a) \<times> 's \<Rightarrow> ('a \<Rightarrow> ('s, 'b) action) \<Rightarrow> (error + 'b) \<times> 's" where
  "bind_result r f = (case r of (Inl e, s') \<Rightarrow> (Inl e, s') | (Inr a, s') \<Rightarrow> f a s')"

definition then_do :: "('s, 'a) action \<Rightarrow> ('a \<Rightarrow> ('s, 'b) action) \<Rightarrow> ('s, 'b) action" where
  "then_do m f s = bind_result (m s) f"

text \<open>\<^verbatim>\<open>d[k]\<close> on a dictionary: a missing key raises \<^verbatim>\<open>KeyError\<close>.\<close>

definition getitem :: "('k \<rightharpoonup> 'v) \<Rightarrow> 'k \<Rightarrow> error + 'v" where
  "getitem d k = (case d k of None \<Rightarrow> Inl KeyError | Some v \<Rightarrow> Inr v)"

text \<open>A list comprehension \<^verbatim>\<open>[d[k] for k in ks]\<close>: the first missing key raises.\<close>

fun getitems :: "('k \<rightharpoonup> 'v) \<Rightarrow> 'k list \<Rightarrow> error + 'v list" where
  "getitems d [] = Inr []"
| "getitems d (k # ks) =
     (case getitem d k of
        Inl e \<Rightarrow> Inl e
      | Inr v \<Rightarrow> (case getitems d ks of Inl e \<Rightarrow> Inl e | Inr vs \<Rightarrow> Inr (v # vs)))"

section \<open>Library functions the ingestion calls\<close>

subsection \<open>\<^verbatim>\<open>uuid.UUID(hex)\<close>\<close>

text \<open>
  \<^verbatim>\<open>uuid.UUID\<close> removes the prefixes \<^verbatim>\<open>urn:\<close> and \<^verbatim>\<open>uuid:\<close>, strips braces
  from both ends, removes hyphens, wants 32 characters and reads them with
  \<^verbatim>\<open>int(_, 16)\<close>; the number must be a 128-bit value, and two UUIDs are equal when
  these numbers are. \<^verbatim>\<open>int(_, 16)\<close> skips blanks at both ends, takes a sign and the
  prefix \<^verbatim>\<open>0x\<close> or \<^verbatim>\<open>0X\<close>, and reads hexadecimal digits of either case, with
  single underscores between digits and after the prefix. Strings are lists of 8-bit
  characters throughout; what Python does with characters beyond ASCII (other blanks,
  other digits) is outside the model.
\<close>

function str_replace :: "string \<Rightarrow> string \<Rightarrow> string \<Rightarrow> string" where
  "str_replace old new [] = []"
| "str_replace old new (c # cs) =
     (if old \<noteq> [] \<and> take (length old) (c # cs) = old
      then new @ str_replace old new (drop (length old) (c # cs))
      else c # str_replace old new cs)"
  by pat_completeness auto
termination
  by (relation "measure (\<lambda>(old, new, s). length s)") auto

definition strip_chars :: "char set \<Rightarrow> string \<Rightarrow> string" where
  "strip_chars cs s = rev (dropWhile (\<lambda>c. c \<in> cs) (rev (dropWhile (\<lambda>c. c \<in> cs) s)))"

definition hex_val :: "char \<Rightarrow> nat option" where
  "hex_val c =
     (let n = of_char c :: nat in
      if 48 \<le> n \<and> n \<le> 57 then Some (n - 48)
      else if 97 \<le> n \<and> n \<le> 102 then Some (n - 87)
      else if 65 \<le> n \<and> n \<le> 70 then Some (n - 55)
      else None)"

text \<open>The blanks that the conversions of Python skip in an ASCII string
  (\<^verbatim>\<open>Py_ISSPACE\<close>): tab to carriage return, and the space.\<close>

definition py_isspace :: "char \<Rightarrow> bool" where
  "py_isspace c = (let n = of_char c :: nat in (9 \<le> n \<and> n \<le> 13) \<or> n = 32)"

text \<open>The digits of \<^verbatim>\<open>int(_, 16)\<close>, from the left; \<open>wanted\<close> holds at the start and
  after an underscore, where a digit must follow. The result is the number and what is
  left of the string.\<close>

fun int16_digits :: "nat \<Rightarrow> bool \<Rightarrow> string \<Rightarrow> (nat \<times> string) option" where
  "int16_digits acc wanted [] = (if wanted then None else Some (acc, []))"
| "int16_digits acc wanted (c # cs) =
     (case hex_val c of
        Some d \<Rightarrow> int16_digits (16 * acc + d) False cs
      | None \<Rightarrow>
          if wanted then None
          else if c = CHR ''_'' then int16_digits acc True cs
          else Some (acc, c # cs))"

definition int16 :: "string \<Rightarrow> int option" where
  "int16 s0 =
     (let s1 = dropWhile py_isspace s0;
          negative = (take 1 s1 = ''-'');
          s2 = (if take 1 s1 = ''+'' \<or> take 1 s1 = ''-'' then drop 1 s1 else s1);
          s3 = (if take 2 s2 = ''0x'' \<or> take 2 s2 = ''0X''
                then (if take 1 (drop 2 s2) = ''_'' then drop 3 s2 else drop 2 s2)
                else s2)
      in case int16_digits 0 True s3 of
           None \<Rightarrow> None
         | Some (n, r) \<Rightarrow>
             if list_all py_isspace r then Some (if negative then - int n else int n) else None)"

definition UUID :: "string \<Rightarrow> error + nat" where
  "UUID hex0 =
     (let hex = str_replace ''uuid:'' '''' (str_replace ''urn:'' '''' hex0);
          hex = str_replace ''-'' '''' (strip_chars {CHR ''{'', CHR ''}''} hex)
      in if length hex \<noteq> 32 then Inl ValueError
         else (case int16 hex of
                 None \<Rightarrow> Inl ValueError
               | Some n \<Rightarrow> if 0 \<le> n \<and> n < 2 ^ 128 then Inr (nat n) else Inl ValueError))"

subsection \<open>\<^verbatim>\<open>django.utils.dateparse.parse_datetime\<close>\<close>

text \<open>
  The function matches its argument against the regular expression
  \<^verbatim>\<open>(?P<year>\d{4})-(?P<month>\d{1,2})-(?P<day>\d{1,2})[T ](?P<hour>\d{1,2}):(?P<minute>\d{1,2})(?::(?P<second>\d{1,2})(?:\.(?P<microsecond>\d{1,6})\d{0,6})?)?(?P<tzinfo>Z|[+-]\d{2}(?::?\d{2})?)?$\<close>
  (Django 3.0), returns \<^verbatim>\<open>None\<close> when it does not match, and otherwise builds a
  \<^verbatim>\<open>datetime\<close> from the groups, which raises \<^verbatim>\<open>ValueError\<close> when a component
  is out of range. Every digit group of the expression is followed by something that is
  no digit, so a group matches exactly when the whole run of digits at its place has a
  permitted length. \<^verbatim>\<open>$\<close> matches at the end and before a final newline. Characters
  are bytes here, so the digits are the ASCII ones.
\<close>

record datetime =
  year :: nat
  month :: nat
  day :: nat
  hour :: nat
  minute :: nat
  second :: nat
  microsecond :: nat
  tzinfo :: "int option"

record groups =
  g_year :: string
  g_month :: string
  g_day :: string
  g_hour :: string
  g_minute :: string
  g_second :: "string option"
  g_microsecond :: "string option"
  g_tzinfo :: "string option"

definition is_digit :: "char \<Rightarrow> bool" where
  "is_digit c = (48 \<le> (of_char c :: nat) \<and> (of_char c :: nat) \<le> 57)"

definition int10 :: "string \<Rightarrow> nat" where
  "int10 s = foldl (\<lambda>n c. 10 * n + (of_char c - 48)) 0 s"

definition digit_run :: "nat \<Rightarrow> nat \<Rightarrow> string \<Rightarrow> (string \<times> string) option" where
  "digit_run lo hi s =
     (let ds = takeWhile is_digit s in
      if lo \<le> length ds \<and> length ds \<le> hi then Some (ds, dropWhile is_digit s) else None)"

definition expect :: "char set \<Rightarrow> string \<Rightarrow> string option" where
  "expect cs s = (case s of [] \<Rightarrow> None | c # r \<Rightarrow> if c \<in> cs then Some r else None)"

definition at_end :: "string \<Rightarrow> bool" where
  "at_end s = (s = [] \<or> s = [CHR 0x0A])"

definition match_tzinfo :: "string \<Rightarrow> string option option" where
  "match_tzinfo s =
     (if at_end s then Some None
      else if take 1 s = ''Z'' then (if at_end (drop 1 s) then Some (Some ''Z'') else None)
      else if take 1 s = ''+'' \<or> take 1 s = ''-'' then
        (case digit_run 2 4 (drop 1 s) of
           None \<Rightarrow> None
         | Some (ds, r) \<Rightarrow>
             if length ds = 4 then (if at_end r then Some (Some (take 1 s @ ds)) else None)
             else if length ds = 2 then
               (if at_end r then Some (Some (take 1 s @ ds))
                else (case expect {CHR '':''} r of
                        None \<Rightarrow> None
                      | Some r1 \<Rightarrow>
                          (case digit_run 2 2 r1 of
                             None \<Rightarrow> None
                           | Some (ms, r2) \<Rightarrow>
                               if at_end r2 then Some (Some (take 1 s @ ds @ '':'' @ ms)) else None)))
             else None)
      else None)"

definition match_second :: "string \<Rightarrow> (string option \<times> string option \<times> string) option" where
  "match_second s =
     (case expect {CHR '':''} s of
        None \<Rightarrow> Some (None, None, s)
      | Some r \<Rightarrow>
          (case digit_run 1 2 r of
             None \<Rightarrow> None
           | Some (sec, r1) \<Rightarrow>
               (case expect {CHR ''.''} r1 of
                  None \<Rightarrow> Some (Some sec, None, r1)
                | Some r2 \<Rightarrow>
                    (case digit_run 1 12 r2 of
                       None \<Rightarrow> None
                     | Some (frac, r3) \<Rightarrow> Some (Some sec, Some (take 6 frac), r3)))))"

definition datetime_re :: "string \<Rightarrow> groups option" where
  "datetime_re s0 =
     Option.bind (digit_run 4 4 s0) (\<lambda>(y, s1).
     Option.bind (expect {CHR ''-''} s1) (\<lambda>s2.
     Option.bind (digit_run 1 2 s2) (\<lambda>(mo, s3).
     Option.bind (expect {CHR ''-''} s3) (\<lambda>s4.
     Option.bind (digit_run 1 2 s4) (\<lambda>(d, s5).
     Option.bind (expect {CHR ''T'', CHR '' ''} s5) (\<lambda>s6.
     Option.bind (digit_run 1 2 s6) (\<lambda>(h, s7).
     Option.bind (expect {CHR '':''} s7) (\<lambda>s8.
     Option.bind (digit_run 1 2 s8) (\<lambda>(mi, s9).
     Option.bind (match_second s9) (\<lambda>(sec, us, s10).
     Option.bind (match_tzinfo s10) (\<lambda>tz.
       Some \<lparr>g_year = y, g_month = mo, g_day = d, g_hour = h, g_minute = mi,
             g_second = sec, g_microsecond = us, g_tzinfo = tz\<rparr>)))))))))))"

definition ljust :: "nat \<Rightarrow> char \<Rightarrow> string \<Rightarrow> string" where
  "ljust n c s = s @ replicate (n - length s) c"

definition is_leap :: "nat \<Rightarrow> bool" where
  "is_leap y = (y mod 4 = 0 \<and> (y mod 100 \<noteq> 0 \<or> y mod 400 = 0))"

definition days_in_month :: "nat \<Rightarrow> nat \<Rightarrow> nat" where
  "days_in_month y m =
     (if m = 2 then (if is_leap y then 29 else 28)
      else if m \<in> {4, 6, 9, 11} then 30 else 31)"

text \<open>The offset in minutes that \<^verbatim>\<open>parse_datetime\<close> computes from the \<^verbatim>\<open>tzinfo\<close> group.\<close>

definition tz_offset :: "string \<Rightarrow> int" where
  "tz_offset tz =
     (if tz = ''Z'' then 0
      else let offset_mins = (if length tz > 3 then int10 (drop (length tz - 2) tz) else 0);
               offset = int (60 * int10 (take 2 (drop 1 tz)) + offset_mins)
           in if take 1 tz = ''-'' then - offset else offset)"

definition parse_datetime :: "string \<Rightarrow> error + datetime option" where
  "parse_datetime v =
     (case datetime_re v of
        None \<Rightarrow> Inr None
      | Some g \<Rightarrow>
          (let tz = map_option tz_offset (g_tzinfo g);
               dt = \<lparr>year = int10 (g_year g), month = int10 (g_month g), day = int10 (g_day g),
                     hour = int10 (g_hour g), minute = int10 (g_minute g),
                     second = (case g_second g of None \<Rightarrow> 0 | Some x \<Rightarrow> int10 x),
                     microsecond = (case g_microsecond g of None \<Rightarrow> 0
                                    | Some x \<Rightarrow> int10 (ljust 6 (CHR ''0'') x)),
                     tzinfo = tz\<rparr>
           in if (case tz of None \<Rightarrow> False | Some off \<Rightarrow> \<not> (- 1440 < off \<and> off < 1440))
              then Inl ValueError
              else if 1 \<le> year dt \<and> year dt \<le> 9999 \<and> 1 \<le> month dt \<and> month dt \<le> 12
                   \<and> 1 \<le> day dt \<and> day dt \<le> days_in_month (year dt) (month dt)
                   \<and> hour dt \<le> 23 \<and> minute dt \<le> 59 \<and> second dt \<le> 59
              then Inr (Some dt) else Inl ValueError))"

text \<open>Two \<^verbatim>\<open>datetime\<close> values are \<^verbatim>\<open>==\<close> when both carry an offset and denote
  the same instant, or when neither does and all components agree.\<close>

definition days_before_year :: "nat \<Rightarrow> nat" where
  "days_before_year y = (let z = y - 1 in z * 365 + z div 4 - z div 100 + z div 400)"

definition ymd2ord :: "nat \<Rightarrow> nat \<Rightarrow> nat \<Rightarrow> nat" where
  "ymd2ord y m d = days_before_year y + sum_list (map (days_in_month y) [1..<m]) + d"

definition utc_micros :: "datetime \<Rightarrow> int \<Rightarrow> int" where
  "utc_micros dt off =
     (((int (ymd2ord (year dt) (month dt) (day dt)) * 24 + int (hour dt)) * 60
        + int (minute dt) - off) * 60 + int (second dt)) * 1000000 + int (microsecond dt)"

definition datetime_eq :: "datetime \<Rightarrow> datetime \<Rightarrow> bool" where
  "datetime_eq a b =
     (case (tzinfo a, tzinfo b) of
        (None, None) \<Rightarrow> a = b
      | (Some x, Some y) \<Rightarrow> utc_micros a x = utc_micros b y
      | _ \<Rightarrow> False)"

section \<open>The data model (\<^verbatim>\<open>models.py\<close>)\<close>

text \<open>
  Primary keys are drawn by \<^verbatim>\<open>uuid.uuid4\<close>; the model hands them out from a
  counter, so that a fresh key differs from the keys drawn before. The four dimension
  models \<^verbatim>\<open>Food\<close>, \<^verbatim>\<open>Tag\<close>, \<^verbatim>\<open>Gender\<close> and \<^verbatim>\<open>EyeColor\<close> are rows of a key
  and one natural-key field (\<^verbatim>\<open>name\<close>, \<^verbatim>\<open>name\<close>, \<^verbatim>\<open>gender\<close>, \<^verbatim>\<open>color\<close>), which
  \<open>ent_key\<close> holds for all of them; only \<^verbatim>\<open>Food\<close> has a \<^verbatim>\<open>food_type\<close>.
\<close>

record Company =
  company_pk :: nat
  company_name :: string

datatype FoodTypes = FRUIT | VEGETABLE | UNCLASSIFIED

datatype object_model = Food | Tag | Gender | EyeColor

record entity =
  ent_pk :: nat
  ent_key :: string
  food_type :: "FoodTypes option"

definition type_lookup :: "string \<rightharpoonup> FoodTypes" where
  "type_lookup =
     [''orange'' \<mapsto> FRUIT, ''beetroot'' \<mapsto> VEGETABLE, ''strawberry'' \<mapsto> FRUIT,
      ''cucumber'' \<mapsto> VEGETABLE, ''celery'' \<mapsto> VEGETABLE, ''banana'' \<mapsto> FRUIT,
      ''carrot'' \<mapsto> VEGETABLE, ''apple'' \<mapsto> FRUIT]"

text \<open>
  A row of \<^verbatim>\<open>People\<close>. \<open>pk\<close> is the field \<^verbatim>\<open>id\<close> and \<open>mongo_id\<close> the field
  \<^verbatim>\<open>_id\<close>. The balance is kept as the string of the file (the conversion of
  \<^verbatim>\<open>CurrencyField\<close> to a float and back is taken to return the string it was
  given), and \<open>registered\<close> is what \<^verbatim>\<open>parse_datetime\<close> returned.
\<close>

record People =
  mongo_id :: string
  pk :: nat
  guid :: nat
  name :: string
  eye_color_id :: "nat option"
  gender_id :: "nat option"
  company_id :: "nat option"
  has_died :: "bool option"
  balance :: string
  picture :: string
  age :: int
  email :: string
  phone :: string
  address :: string
  about :: string
  registered :: "datetime option"
  greeting :: string
  is_active :: bool
  created_at :: nat
  updated_at :: nat

text \<open>
  An instance in memory has the fields of the row and whatever attributes the code
  assigns to it besides: \<^verbatim>\<open>ingest_people\<close> assigns \<^verbatim>\<open>active\<close>, which is no field
  of the model (the field is \<^verbatim>\<open>is_active\<close>; on the class, \<^verbatim>\<open>active\<close> is the
  manager).
\<close>

record People_instance = People +
  active :: "bool option"

record IngestedFiles =
  ingested_pk :: nat
  companyfile_hash :: string
  peoplefile_hash :: string
  ingested_on :: nat

text \<open>
  The database: one list of rows for each table, in the order of insertion. The tables
  of the many-to-many relations hold pairs (person, target); the keys of their own rows
  are left out. \<open>writes\<close> counts the calls that write (\<^verbatim>\<open>save\<close>, the creation in
  \<^verbatim>\<open>get_or_create\<close>, \<^verbatim>\<open>set\<close> on a relation). \<open>uuid4_next\<close> and \<open>clock\<close> are the
  sources of fresh keys and of the time: each reading of the clock advances it.
\<close>

record db =
  Company_objects :: "Company list"
  Food_objects :: "entity list"
  Tag_objects :: "entity list"
  Gender_objects :: "entity list"
  EyeColor_objects :: "entity list"
  People_object :: "People list"
  People_tags :: "(nat \<times> nat) list"
  PeopleToFood :: "(nat \<times> nat) list"
  PeopleToFriend :: "(nat \<times> nat) list"
  IngestedFiles_objects :: "IngestedFiles list"
  writes :: nat
  uuid4_next :: nat
  clock :: nat

text \<open>\<^verbatim>\<open>object_model.objects\<close> for the model that \<^verbatim>\<open>create_lookup\<close> is given.\<close>

fun objects :: "db \<Rightarrow> object_model \<Rightarrow> entity list" where
  "objects s Food = Food_objects s"
| "objects s Tag = Tag_objects s"
| "objects s Gender = Gender_objects s"
| "objects s EyeColor = EyeColor_objects s"

fun objects_update :: "object_model \<Rightarrow> entity list \<Rightarrow> db \<Rightarrow> db" where
  "objects_update Food rows s = s\<lparr>Food_objects := rows\<rparr>"
| "objects_update Tag rows s = s\<lparr>Tag_objects := rows\<rparr>"
| "objects_update Gender rows s = s\<lparr>Gender_objects := rows\<rparr>"
| "objects_update EyeColor rows s = s\<lparr>EyeColor_objects := rows\<rparr>"

definition uuid4 :: "(db, nat) action" where
  "uuid4 s = (Inr (uuid4_next s), s\<lparr>uuid4_next := uuid4_next s + 1\<rparr>)"

definition now :: "(db, nat) action" where
  "now s = (Inr (clock s), s\<lparr>clock := clock s + 1\<rparr>)"

text \<open>
  \<^verbatim>\<open>save\<close> on an instance that the constructor has just made (\<open>adding\<close>) inserts
  a row, which the database refuses when the key is taken; on an instance that was
  saved or read before, it writes the row with the instance's key, or inserts it when
  there is none.
\<close>

definition upsert :: "('a \<Rightarrow> nat) \<Rightarrow> 'a \<Rightarrow> 'a list \<Rightarrow> 'a list" where
  "upsert key x xs =
     (if key x \<in> key ` set xs then map (\<lambda>y. if key y = key x then x else y) xs else xs @ [x])"

definition save_row :: "bool \<Rightarrow> ('a \<Rightarrow> nat) \<Rightarrow> 'a \<Rightarrow> 'a list \<Rightarrow> error + 'a list" where
  "save_row adding key x xs =
     (if adding then (if key x \<in> key ` set xs then Inl IntegrityError else Inr (xs @ [x]))
      else Inr (upsert key x xs))"

definition Company_save :: "bool \<Rightarrow> Company \<Rightarrow> (db, Company) action" where
  "Company_save adding c s =
     (case save_row adding company_pk c (Company_objects s) of
        Inl e \<Rightarrow> (Inl e, s)
      | Inr rows \<Rightarrow> (Inr c, s\<lparr>Company_objects := rows, writes := writes s + 1\<rparr>))"

text \<open>\<^verbatim>\<open>Food.save\<close> classifies the food before it writes; the other models write as they are.\<close>

definition classify :: "object_model \<Rightarrow> entity \<Rightarrow> entity" where
  "classify m e =
     (if m = Food then (case type_lookup (ent_key e) of
                          None \<Rightarrow> e | Some t \<Rightarrow> e\<lparr>food_type := Some t\<rparr>)
      else e)"

definition entity_save :: "bool \<Rightarrow> object_model \<Rightarrow> entity \<Rightarrow> (db, entity) action" where
  "entity_save adding m e s =
     (let e' = classify m e
      in case save_row adding ent_pk e' (objects s m) of
           Inl err \<Rightarrow> (Inl err, s)
         | Inr rows \<Rightarrow> (Inr e', (objects_update m rows s)\<lparr>writes := writes s + 1\<rparr>))"

text \<open>
  \<^verbatim>\<open>objects.get_or_create(field=value)\<close>: the row with that value, or a new one,
  saved; more than one such row raises.
\<close>

definition get_or_create :: "object_model \<Rightarrow> string \<Rightarrow> (db, entity \<times> bool) action" where
  "get_or_create m v s =
     (case filter (\<lambda>e. ent_key e = v) (objects s m) of
        [] \<Rightarrow> then_do uuid4 (\<lambda>i.
                then_do (entity_save True m \<lparr>ent_pk = i, ent_key = v,
                           food_type = (if m = Food then Some UNCLASSIFIED else None)\<rparr>)
                  (\<lambda>obj. ret (obj, True))) s
      | [e] \<Rightarrow> (Inr (e, False), s)
      | _ \<Rightarrow> (Inl MultipleObjectsReturned, s))"

text \<open>
  \<^verbatim>\<open>People.save\<close> writes the fields of the model, not the other attributes of the
  instance. \<^verbatim>\<open>registered\<close> is a column without \<^verbatim>\<open>null=True\<close>, so a row without
  it is refused.
\<close>

definition People_save :: "bool \<Rightarrow> People_instance \<Rightarrow> (db, unit) action" where
  "People_save adding p s =
     (if registered p = None then (Inl IntegrityError, s)
      else case save_row adding pk (People.truncate p) (People_object s) of
             Inl e \<Rightarrow> (Inl e, s)
           | Inr rows \<Rightarrow> (Inr (), s\<lparr>People_object := rows, writes := writes s + 1\<rparr>))"

text \<open>
  \<^verbatim>\<open>manager.set(ids)\<close> on a many-to-many relation of one person: the pairs to targets
  outside \<^verbatim>\<open>ids\<close> are removed, the missing ones are added.
\<close>

definition related_all :: "nat \<Rightarrow> (nat \<times> nat) list \<Rightarrow> nat list" where
  "related_all p rel = map snd (filter (\<lambda>r. fst r = p) rel)"

definition related_set :: "nat \<Rightarrow> nat list \<Rightarrow> (nat \<times> nat) list \<Rightarrow> (nat \<times> nat) list" where
  "related_set p ids rel =
     filter (\<lambda>r. fst r \<noteq> p \<or> snd r \<in> set ids) rel
     @ map (Pair p) (filter (\<lambda>i. i \<notin> set (related_all p rel)) (remdups ids))"

definition tags_set :: "People_instance \<Rightarrow> nat list \<Rightarrow> (db, unit) action" where
  "tags_set p ids s =
     (Inr (), s\<lparr>People_tags := related_set (pk p) ids (People_tags s), writes := writes s + 1\<rparr>)"

definition favourite_food_set :: "People_instance \<Rightarrow> nat list \<Rightarrow> (db, unit) action" where
  "favourite_food_set p ids s =
     (Inr (), s\<lparr>PeopleToFood := related_set (pk p) ids (PeopleToFood s), writes := writes s + 1\<rparr>)"

definition friends_set :: "People_instance \<Rightarrow> nat list \<Rightarrow> (db, unit) action" where
  "friends_set p ids s =
     (Inr (), s\<lparr>PeopleToFriend := related_set (pk p) ids (PeopleToFriend s), writes := writes s + 1\<rparr>)"

text \<open>
  The manager \<^verbatim>\<open>People.active\<close> (\<^verbatim>\<open>OnlyActiveManager\<close>) keeps the rows with
  \<^verbatim>\<open>is_active=True\<close>; the model's \<^verbatim>\<open>Meta.ordering\<close> sorts a query by name, rows of
  one name staying in the order of the table.
\<close>

definition People_active_filter :: "db \<Rightarrow> (People \<Rightarrow> bool) \<Rightarrow> People list" where
  "People_active_filter s P = sort_key name (filter (\<lambda>r. is_active r \<and> P r) (People_object s))"

definition instance_of :: "People \<Rightarrow> People_instance" where
  "instance_of r = People.extend r \<lparr>active = None\<rparr>"

text \<open>
  \<^verbatim>\<open>People.__eq__\<close> compares the attribute dictionaries of the two instances without
  \<^verbatim>\<open>created_at\<close>, \<^verbatim>\<open>updated_at\<close>, \<^verbatim>\<open>id\<close> and \<^verbatim>\<open>_state\<close>.
\<close>

definition registered_eq :: "datetime option \<Rightarrow> datetime option \<Rightarrow> bool" where
  "registered_eq a b =
     (case (a, b) of (None, None) \<Rightarrow> True | (Some x, Some y) \<Rightarrow> datetime_eq x y | _ \<Rightarrow> False)"

definition People_eq :: "People_instance \<Rightarrow> People_instance \<Rightarrow> bool" where
  "People_eq self other =
     (mongo_id self = mongo_id other \<and> guid self = guid other \<and> name self = name other
      \<and> eye_color_id self = eye_color_id other \<and> gender_id self = gender_id other
      \<and> company_id self = company_id other \<and> has_died self = has_died other
      \<and> balance self = balance other \<and> picture self = picture other \<and> age self = age other
      \<and> email self = email other \<and> phone self = phone other \<and> address self = address other
      \<and> about self = about other \<and> registered_eq (registered self) (registered other)
      \<and> greeting self = greeting other \<and> is_active self = is_active other
      \<and> active self = active other)"

section \<open>The ingestion (\<^verbatim>\<open>data_ingestion.py\<close>)\<close>

text \<open>
  The files are JSON arrays of objects; the model starts from the decoded objects, with
  the keys the code reads. Of a friend only its \<^verbatim>\<open>index\<close> is read.
\<close>

record company_json =
  c_index :: int
  c_company :: string

record person_json =
  j_index :: int
  j_mongo_id :: string
  j_guid :: string
  j_name :: string
  j_has_died :: "bool option"
  j_balance :: string
  j_picture :: string
  j_age :: int
  j_eyeColor :: string
  j_gender :: string
  j_company_id :: int
  j_email :: string
  j_phone :: string
  j_address :: string
  j_about :: string
  j_registered :: string
  j_greeting :: string
  j_tags :: "string list"
  j_friends :: "int list"
  j_favouriteFood :: "string list"

text \<open>A \<^verbatim>\<open>for\<close> loop whose body may raise: the first exception ends it.\<close>

fun for_each :: "('a \<Rightarrow> 'b \<Rightarrow> ('s, 'b) action) \<Rightarrow> 'a list \<Rightarrow> 'b \<Rightarrow> ('s, 'b) action" where
  "for_each f [] acc s = (Inr acc, s)"
| "for_each f (x # xs) acc s =
     (case f x acc s of
        (Inl e, s') \<Rightarrow> (Inl e, s')
      | (Inr acc', s') \<Rightarrow> for_each f xs acc' s')"

subsection \<open>\<^verbatim>\<open>create_lookup\<close>\<close>

definition create_lookup_step ::
  "object_model \<Rightarrow> string \<Rightarrow> (string \<rightharpoonup> entity) \<Rightarrow> (db, string \<rightharpoonup> entity) action" where
  "create_lookup_step object_model v lookup =
     (if lookup v = None then
        then_do (get_or_create object_model v) (\<lambda>(this_item, created).
        then_do (if created then entity_save False object_model this_item else ret this_item) (\<lambda>this_item.
        ret (lookup(v \<mapsto> this_item))))
      else ret lookup)"

definition create_lookup ::
  "object_model \<Rightarrow> string list \<Rightarrow> (string \<rightharpoonup> entity) option \<Rightarrow> (db, string \<rightharpoonup> entity) action" where
  "create_lookup object_model field_values existing_lookup =
     for_each (create_lookup_step object_model) field_values
       (case existing_lookup of None \<Rightarrow> Map.empty | Some l \<Rightarrow> l)"

subsection \<open>\<^verbatim>\<open>ingest_companies\<close>\<close>

definition ingest_companies_step ::
  "(string \<rightharpoonup> Company) \<Rightarrow> company_json \<Rightarrow> (int \<rightharpoonup> Company) \<Rightarrow> (db, int \<rightharpoonup> Company) action" where
  "ingest_companies_step company_name_lookup company company_index_lookup =
     then_do
       (case company_name_lookup (c_company company) of
          Some this_company \<Rightarrow> ret this_company
        | None \<Rightarrow> then_do uuid4 (\<lambda>i.
                    Company_save True \<lparr>company_pk = i, company_name = c_company company\<rparr>))
       (\<lambda>this_company. ret (company_index_lookup(c_index company \<mapsto> this_company)))"

text \<open>
  The two \<^verbatim>\<open>assert\<close> statements compare the number of records with the number of
  distinct indexes and of distinct names (\<^verbatim>\<open>len(list(set(...)))\<close>). They are taken
  to be in force (Python drops them under \<^verbatim>\<open>-O\<close>). The existing companies are read
  in the order of the table; their names are unique there.
\<close>

definition ingest_companies :: "company_json list \<Rightarrow> (db, int \<rightharpoonup> Company) action" where
  "ingest_companies new_companies s =
     (let company_name_lookup =
            fold (\<lambda>company m. m(company_name company \<mapsto> company)) (Company_objects s) Map.empty;
          new_company_indexes = map c_index new_companies;
          new_company_names = map c_company new_companies
      in if length new_companies \<noteq> length (remdups new_company_indexes) then (Inl AssertionError, s)
         else if length new_companies \<noteq> length (remdups new_company_names) then (Inl AssertionError, s)
         else for_each (ingest_companies_step company_name_lookup) new_companies Map.empty s)"

subsection \<open>\<^verbatim>\<open>ingest_people\<close>\<close>

text \<open>The keys of a dictionary after \<^verbatim>\<open>d[k] = ''\<close>, in the order of insertion.\<close>

definition dict_add :: "'a list \<Rightarrow> 'a \<Rightarrow> 'a list" where
  "dict_add ks k = (if k \<in> set ks then ks else ks @ [k])"

record harvest =
  people_index_uuid :: "int \<rightharpoonup> nat"
  genders :: "string list"
  eyecolors :: "string list"
  tags :: "string list"
  foods :: "string list"

fun harvest_loop :: "person_json list \<Rightarrow> harvest \<Rightarrow> error + harvest" where
  "harvest_loop [] h = Inr h"
| "harvest_loop (person # people) h =
     (case UUID (j_guid person) of
        Inl e \<Rightarrow> Inl e
      | Inr g \<Rightarrow>
          harvest_loop people
            (h\<lparr>people_index_uuid := (people_index_uuid h)(j_index person \<mapsto> g),
               genders := dict_add (genders h) (j_gender person),
               eyecolors := dict_add (eyecolors h) (j_eyeColor person),
               tags := fold (\<lambda>tag ks. dict_add ks tag) (j_tags person) (tags h),
               foods := fold (\<lambda>food ks. dict_add ks food) (j_favouriteFood person) (foods h)\<rparr>))"

record lookups =
  foods_lookup :: "string \<rightharpoonup> entity"
  tags_lookup :: "string \<rightharpoonup> entity"
  gender_lookup :: "string \<rightharpoonup> entity"
  eye_color_lookup :: "string \<rightharpoonup> entity"
  index_uuid :: "int \<rightharpoonup> nat"
  company_lookup :: "int \<rightharpoonup> Company"

text \<open>\<^verbatim>\<open>s.replace(' ', '')\<close>: every space is removed, no other blank is.\<close>

definition remove_spaces :: "string \<Rightarrow> string" where
  "remove_spaces s = filter (\<lambda>c. c \<noteq> CHR '' '') s"

text \<open>
  The first half of the loop body: the three lists of the relations and the unsaved
  instance \<^verbatim>\<open>People(**person)\<close>, whose \<^verbatim>\<open>id\<close>, \<^verbatim>\<open>created_at\<close> and
  \<^verbatim>\<open>updated_at\<close> take their defaults.
\<close>

definition candidate ::
  "lookups \<Rightarrow> person_json \<Rightarrow> (db, People_instance \<times> nat list \<times> nat list \<times> nat list) action" where
  "candidate L person =
     then_do (lift (getitems (foods_lookup L) (j_favouriteFood person))) (\<lambda>fs.
     then_do (lift (getitems (tags_lookup L) (j_tags person))) (\<lambda>ts.
     then_do (lift (getitems (index_uuid L) (j_friends person))) (\<lambda>current_persons_friends.
     then_do (lift (parse_datetime (remove_spaces (j_registered person)))) (\<lambda>reg.
     then_do (lift (UUID (j_guid person))) (\<lambda>g.
     then_do (lift (getitem (company_lookup L) (j_company_id person - 1))) (\<lambda>company.
     then_do (lift (getitem (gender_lookup L) (j_gender person))) (\<lambda>gender.
     then_do (lift (getitem (eye_color_lookup L) (j_eyeColor person))) (\<lambda>eye_color.
     then_do uuid4 (\<lambda>i.
     then_do now (\<lambda>created.
     then_do now (\<lambda>updated.
       ret (\<lparr>mongo_id = j_mongo_id person, pk = i, guid = g, name = j_name person,
             eye_color_id = Some (ent_pk eye_color), gender_id = Some (ent_pk gender),
             company_id = Some (company_pk company), has_died = j_has_died person,
             balance = j_balance person, picture = j_picture person, age = j_age person,
             email = j_email person, phone = j_phone person, address = j_address person,
             about = j_about person, registered = reg, greeting = j_greeting person,
             is_active = True, created_at = created, updated_at = updated, active = None\<rparr>,
            map ent_pk fs, map ent_pk ts, current_persons_friends))))))))))))"

type_synonym combos = "(People_instance \<times> nat list) list"

definition persist ::
  "People_instance \<Rightarrow> nat list \<Rightarrow> nat list \<Rightarrow> nat list \<Rightarrow> combos \<Rightarrow> (db, combos) action" where
  "persist current_person current_persons_foods current_persons_tags current_persons_friends
     person_friends_combos =
     then_do (People_save True current_person) (\<lambda>_.
     then_do (tags_set current_person current_persons_tags) (\<lambda>_.
     then_do (favourite_food_set current_person current_persons_foods) (\<lambda>_.
     then_do (People_save False current_person) (\<lambda>_.
       ret (person_friends_combos @ [(current_person, current_persons_friends)])))))"

definition friends_all :: "db \<Rightarrow> nat \<Rightarrow> People list" where
  "friends_all s p = filter (\<lambda>r. pk r \<in> set (related_all p (PeopleToFriend s))) (People_object s)"

text \<open>The test of the \<^verbatim>\<open>if not (...)\<close>: the instance or one of the three sets differs.\<close>

definition unchanged :: "db \<Rightarrow> People_instance \<Rightarrow> People_instance \<Rightarrow> nat list \<Rightarrow> nat list \<Rightarrow> nat list \<Rightarrow> bool" where
  "unchanged s current_person existing_person current_persons_foods current_persons_tags
     current_persons_friends =
     (let existing_foods = related_all (pk existing_person) (PeopleToFood s);
          existing_tags = related_all (pk existing_person) (People_tags s);
          existing_friends = map guid (friends_all s (pk existing_person))
      in People_eq current_person existing_person
         \<and> set existing_foods = set current_persons_foods
         \<and> set existing_friends = set current_persons_friends
         \<and> set existing_tags = set current_persons_tags)"

definition reconcile :: "lookups \<Rightarrow> person_json \<Rightarrow> combos \<Rightarrow> (db, combos) action" where
  "reconcile L person person_friends_combos =
     then_do (candidate L person)
       (\<lambda>(current_person, current_persons_foods, current_persons_tags, current_persons_friends) s.
          case People_active_filter s (\<lambda>r. guid r = guid current_person) of
            [] \<Rightarrow> persist current_person current_persons_foods current_persons_tags
                    current_persons_friends person_friends_combos s
          | r # _ \<Rightarrow>
              (let existing_person = instance_of r in
               if \<not> unchanged s current_person existing_person current_persons_foods
                      current_persons_tags current_persons_friends
               then then_do now (\<lambda>t.
                    then_do (People_save False (existing_person\<lparr>updated_at := t, active := Some False\<rparr>)) (\<lambda>_.
                      persist current_person current_persons_foods current_persons_tags
                        current_persons_friends person_friends_combos)) s
               else (Inr person_friends_combos, s)))"

definition link_friends :: "People_instance \<times> nat list \<Rightarrow> unit \<Rightarrow> (db, unit) action" where
  "link_friends combo u s =
     (case combo of (person, friends) \<Rightarrow>
        then_do (friends_set person (map pk (People_active_filter s (\<lambda>r. guid r \<in> set friends))))
          (\<lambda>_. People_save False person) s)"

definition reconcile_all :: "lookups \<Rightarrow> person_json list \<Rightarrow> (db, combos) action" where
  "reconcile_all L people = for_each (reconcile L) people []"

definition link_all :: "combos \<Rightarrow> (db, unit) action" where
  "link_all person_friends_combos = for_each link_friends person_friends_combos ()"

definition ingest_people :: "person_json list \<Rightarrow> (int \<rightharpoonup> Company) \<Rightarrow> (db, unit) action" where
  "ingest_people people company_lookup0 =
     then_do (lift (harvest_loop people
                \<lparr>people_index_uuid = Map.empty, genders = [], eyecolors = [], tags = [], foods = []\<rparr>)) (\<lambda>h.
     then_do (create_lookup Food (foods h) None) (\<lambda>fl.
     then_do (create_lookup Tag (tags h) None) (\<lambda>tl.
     then_do (create_lookup Gender (genders h) None) (\<lambda>gl.
     then_do (create_lookup EyeColor (eyecolors h) None) (\<lambda>el.
     then_do (reconcile_all \<lparr>foods_lookup = fl, tags_lookup = tl, gender_lookup = gl,
                eye_color_lookup = el, index_uuid = people_index_uuid h,
                company_lookup = company_lookup0\<rparr> people) link_all)))))"

subsection \<open>\<^verbatim>\<open>ingest_data\<close>\<close>

text \<open>
  A file is its MD5 digest (\<^verbatim>\<open>get_hash\<close>) and its decoded content: the same file
  has the same digest and the same content.
\<close>

record 'a data_file =
  get_hash :: string
  json_load :: 'a

definition IngestedFiles_save :: "bool \<Rightarrow> IngestedFiles \<Rightarrow> (db, unit) action" where
  "IngestedFiles_save adding u s =
     (case save_row adding ingested_pk u (IngestedFiles_objects s) of
        Inl e \<Rightarrow> (Inl e, s)
      | Inr rows \<Rightarrow> (Inr (), s\<lparr>IngestedFiles_objects := rows, writes := writes s + 1\<rparr>))"

definition ingest_data :: "company_json list data_file \<Rightarrow> person_json list data_file \<Rightarrow> (db, unit) action" where
  "ingest_data company_file people_file s =
     (let companyfile_hash' = get_hash company_file;
          peoplefile_hash' = get_hash people_file
      in if length (filter (\<lambda>r. companyfile_hash r = companyfile_hash'
                               \<and> peoplefile_hash r = peoplefile_hash') (IngestedFiles_objects s)) = 0
         then
           then_do (ingest_companies (json_load company_file)) (\<lambda>company_lookup0.
           then_do (ingest_people (json_load people_file) company_lookup0) (\<lambda>_.
           then_do uuid4 (\<lambda>i.
           then_do now (\<lambda>t.
             IngestedFiles_save True \<lparr>ingested_pk = i, companyfile_hash = companyfile_hash',
               peoplefile_hash = peoplefile_hash', ingested_on = t\<rparr>)))) s
         else (Inr (), s))"

section \<open>Notions used in the proofs\<close>

text \<open>
  A row without the time of its last update: the ingestion changes nothing else in a row
  that it has written once.
\<close>

definition stable :: "People \<Rightarrow> People" where
  "stable r = r\<lparr>updated_at := 0\<rparr>"

text \<open>
  What holds of the pairs recorded for the linking of friends while the second pass runs:
  the keys of the table are distinct, so are the keys of the recorded instances, and each
  recorded instance is in the table, up to the time of the update.
\<close>

definition recorded_ok :: "db \<Rightarrow> combos \<Rightarrow> bool" where
  "recorded_ok s cs \<longleftrightarrow>
     distinct (map pk (People_object s)) \<and> distinct (map (\<lambda>c. pk (fst c)) cs)
     \<and> (\<forall>c \<in> set cs. stable (People.truncate (fst c)) \<in> stable ` set (People_object s))"

text \<open>An action preserves a property of the database when every outcome of it, a
  return or an exception, leaves the property standing.\<close>

definition preserves :: "(db \<Rightarrow> bool) \<Rightarrow> (db, 'a) action \<Rightarrow> bool" where
  "preserves P m \<longleftrightarrow> (\<forall>s r s'. P s \<longrightarrow> m s = (r, s') \<longrightarrow> P s')"

definition people_frame :: "nat set \<Rightarrow> (nat \<times> nat) list \<Rightarrow> Company list \<Rightarrow> db \<Rightarrow> bool" where
  "people_frame old F C s \<longleftrightarrow>
     PeopleToFriend s = F \<and> Company_objects s = C \<and> old \<subseteq> pk ` set (People_object s)"

definition only_dims :: "db \<Rightarrow> db \<Rightarrow> bool" where
  "only_dims s t \<longleftrightarrow>
     t\<lparr>Food_objects := Food_objects s, Tag_objects := Tag_objects s,
       Gender_objects := Gender_objects s, EyeColor_objects := EyeColor_objects s,
       writes := writes s, uuid4_next := uuid4_next s\<rparr> = s"

definition friends_frame :: "nat set \<Rightarrow> (nat \<Rightarrow> nat list) \<Rightarrow> Company list \<Rightarrow> db \<Rightarrow> bool" where
  "friends_frame old X C s \<longleftrightarrow>
     (\<forall>q \<in> old. related_all q (PeopleToFriend s) = X q) \<and> Company_objects s = C
     \<and> old \<subseteq> pk ` set (People_object s)"

section \<open>A scenario\<close>

text \<open>
  An empty database, one organization file and a population of three: A, with the
  friends B and C, and B and C without friends. The later files change B's name, drop C
  from A's friends as well, add an organization, or write a timestamp with a space
  between date and time.
\<close>

definition db_empty :: db where
  "db_empty = \<lparr>Company_objects = [], Food_objects = [], Tag_objects = [], Gender_objects = [],
     EyeColor_objects = [], People_object = [], People_tags = [], PeopleToFood = [],
     PeopleToFriend = [], IngestedFiles_objects = [], writes = 0, uuid4_next = 0, clock = 0\<rparr>"

definition person_a :: person_json where
  "person_a = \<lparr>j_index = 0, j_mongo_id = ''595eeb9b96d80a5bc7afb106'',
     j_guid = ''00000000-0000-0000-0000-00000000000a'', j_name = ''A'', j_has_died = Some False,
     j_balance = ''$1.00'', j_picture = ''http://placehold.it/32x32'', j_age = 30,
     j_eyeColor = ''brown'', j_gender = ''female'', j_company_id = 1, j_email = ''a@acme.io'',
     j_phone = ''+1'', j_address = ''1 Main St'', j_about = ''-'',
     j_registered = ''2020-01-01T00:00:00 +00:00'', j_greeting = ''Hello'', j_tags = [''x''],
     j_friends = [1, 2], j_favouriteFood = [''apple'']\<rparr>"

definition person_b :: person_json where
  "person_b = \<lparr>j_index = 1, j_mongo_id = ''595eeb9b96d80a5bc7afb107'',
     j_guid = ''00000000-0000-0000-0000-00000000000b'', j_name = ''B'', j_has_died = Some False,
     j_balance = ''$2.00'', j_picture = ''http://placehold.it/32x32'', j_age = 31,
     j_eyeColor = ''brown'', j_gender = ''male'', j_company_id = 1, j_email = ''b@acme.io'',
     j_phone = ''+2'', j_address = ''2 Main St'', j_about = ''-'',
     j_registered = ''2020-01-02T00:00:00 +00:00'', j_greeting = ''Hi'', j_tags = [''x''],
     j_friends = [], j_favouriteFood = [''carrot'']\<rparr>"

definition person_c :: person_json where
  "person_c = \<lparr>j_index = 2, j_mongo_id = ''595eeb9b96d80a5bc7afb108'',
     j_guid = ''00000000-0000-0000-0000-00000000000c'', j_name = ''C'', j_has_died = Some False,
     j_balance = ''$3.00'', j_picture = ''http://placehold.it/32x32'', j_age = 32,
     j_eyeColor = ''blue'', j_gender = ''male'', j_company_id = 1, j_email = ''c@acme.io'',
     j_phone = ''+3'', j_address = ''3 Main St'', j_about = ''-'',
     j_registered = ''2020-01-03T00:00:00 +00:00'', j_greeting = ''Hey'', j_tags = [],
     j_friends = [], j_favouriteFood = []\<rparr>"

definition companies1 :: "company_json list data_file" where
  "companies1 = \<lparr>get_hash = ''c1'', json_load = [\<lparr>c_index = 0, c_company = ''Acme''\<rparr>]\<rparr>"

definition companies2 :: "company_json list data_file" where
  "companies2 = \<lparr>get_hash = ''c2'', json_load = [\<lparr>c_index = 0, c_company = ''Acme''\<rparr>,
     \<lparr>c_index = 1, c_company = ''Bolt''\<rparr>]\<rparr>"

definition people1 :: "person_json list data_file" where
  "people1 = \<lparr>get_hash = ''p1'', json_load = [person_a, person_b, person_c]\<rparr>"

definition people2 :: "person_json list data_file" where
  "people2 = \<lparr>get_hash = ''p2'',
     json_load = [person_a, person_b\<lparr>j_name := ''Bb''\<rparr>, person_c]\<rparr>"

definition people6 :: "person_json list data_file" where
  "people6 = \<lparr>get_hash = ''p6'',
     json_load = [person_a\<lparr>j_friends := [1]\<rparr>, person_b\<lparr>j_name := ''Bb''\<rparr>, person_c]\<rparr>"

definition people4 :: "person_json list data_file" where
  "people4 = \<lparr>get_hash = ''p4'',
     json_load = [person_c\<lparr>j_registered := ''2020-01-03 00:00 +00:00''\<rparr>]\<rparr>"

text \<open>The rows of A, B and C after the first ingestion, and the database then.\<close>

definition row_a :: People where
  "row_a = \<lparr>mongo_id = ''595eeb9b96d80a5bc7afb106'', pk = 8, guid = 10, name = ''A'',
     eye_color_id = Some 6, gender_id = Some 4, company_id = Some 0, has_died = Some False,
     balance = ''$1.00'', picture = ''http://placehold.it/32x32'', age = 30,
     email = ''a@acme.io'', phone = ''+1'', address = ''1 Main St'', about = ''-'',
     registered = Some \<lparr>year = 2020, month = 1, day = 1, hour = 0, minute = 0, second = 0,
                         microsecond = 0, tzinfo = Some 0\<rparr>,
     greeting = ''Hello'', is_active = True, created_at = 0, updated_at = 1\<rparr>"

definition row_b :: People where
  "row_b = \<lparr>mongo_id = ''595eeb9b96d80a5bc7afb107'', pk = 9, guid = 11, name = ''B'',
     eye_color_id = Some 6, gender_id = Some 5, company_id = Some 0, has_died = Some False,
     balance = ''$2.00'', picture = ''http://placehold.it/32x32'', age = 31,
     email = ''b@acme.io'', phone = ''+2'', address = ''2 Main St'', about = ''-'',
     registered = Some \<lparr>year = 2020, month = 1, day = 2, hour = 0, minute = 0, second = 0,
                         microsecond = 0, tzinfo = Some 0\<rparr>,
     greeting = ''Hi'', is_active = True, created_at = 2, updated_at = 3\<rparr>"

definition row_c :: People where
  "row_c = \<lparr>mongo_id = ''595eeb9b96d80a5bc7afb108'', pk = 10, guid = 12, name = ''C'',
     eye_color_id = Some 7, gender_id = Some 5, company_id = Some 0, has_died = Some False,
     balance = ''$3.00'', picture = ''http://placehold.it/32x32'', age = 32,
     email = ''c@acme.io'', phone = ''+3'', address = ''3 Main St'', about = ''-'',
     registered = Some \<lparr>year = 2020, month = 1, day = 3, hour = 0, minute = 0, second = 0,
                         microsecond = 0, tzinfo = Some 0\<rparr>,
     greeting = ''Hey'', is_active = True, created_at = 4, updated_at = 5\<rparr>"

definition db1 :: db where
  "db1 = \<lparr>Company_objects = [\<lparr>company_pk = 0, company_name = ''Acme''\<rparr>],
     Food_objects = [\<lparr>ent_pk = 1, ent_key = ''apple'', food_type = Some FRUIT\<rparr>,
                     \<lparr>ent_pk = 2, ent_key = ''carrot'', food_type = Some VEGETABLE\<rparr>],
     Tag_objects = [\<lparr>ent_pk = 3, ent_key = ''x'', food_type = None\<rparr>],
     Gender_objects = [\<lparr>ent_pk = 4, ent_key = ''female'', food_type = None\<rparr>,
                       \<lparr>ent_pk = 5, ent_key = ''male'', food_type = None\<rparr>],
     EyeColor_objects = [\<lparr>ent_pk = 6, ent_key = ''brown'', food_type = None\<rparr>,
                         \<lparr>ent_pk = 7, ent_key = ''blue'', food_type = None\<rparr>],
     People_object = [row_a, row_b, row_c],
     People_tags = [(8, 3), (9, 3)], PeopleToFood = [(8, 1), (9, 2)],
     PeopleToFriend = [(8, 9), (8, 10)],
     IngestedFiles_objects = [\<lparr>ingested_pk = 11, companyfile_hash = ''c1'',
                                peoplefile_hash = ''p1'', ingested_on = 6\<rparr>],
     writes = 34, uuid4_next = 12, clock = 7\<rparr>"

text \<open>After \<open>people2\<close> (B renamed) has been ingested into \<open>db1\<close>.\<close>

definition db2 :: db where
  "db2 = db1\<lparr>People_object := [row_a, row_b\<lparr>updated_at := 11\<rparr>, row_c,
                 row_b\<lparr>pk := 13, name := ''Bb'', created_at := 9, updated_at := 10\<rparr>],
     People_tags := [(8, 3), (9, 3), (13, 3)], PeopleToFood := [(8, 1), (9, 2), (13, 2)],
     IngestedFiles_objects := IngestedFiles_objects db1
       @ [\<lparr>ingested_pk = 15, companyfile_hash = ''c1'', peoplefile_hash = ''p2'', ingested_on = 14\<rparr>],
     writes := 42, uuid4_next := 16, clock := 15\<rparr>"

text \<open>After \<open>companies2\<close> and, once more, \<open>people2\<close> have been ingested into \<open>db2\<close>.\<close>

definition db3 :: db where
  "db3 = db2\<lparr>Company_objects := Company_objects db2 @ [\<lparr>company_pk = 16, company_name = ''Bolt''\<rparr>],
     People_object := [row_a, row_b\<lparr>updated_at := 19\<rparr>, row_c,
                 row_b\<lparr>pk := 13, name := ''Bb'', created_at := 9, updated_at := 10\<rparr>,
                 row_b\<lparr>pk := 18, name := ''Bb'', created_at := 17, updated_at := 18\<rparr>],
     People_tags := [(8, 3), (9, 3), (13, 3), (18, 3)],
     PeopleToFood := [(8, 1), (9, 2), (13, 2), (18, 2)],
     IngestedFiles_objects := IngestedFiles_objects db2
       @ [\<lparr>ingested_pk = 20, companyfile_hash = ''c2'', peoplefile_hash = ''p2'', ingested_on = 22\<rparr>],
     writes := 51, uuid4_next := 21, clock := 23\<rparr>"

text \<open>After \<open>people6\<close> (C dropped from A's friends, B renamed) has been ingested into
  \<open>db1\<close>.\<close>

definition db6 :: db where
  "db6 = db1\<lparr>People_object := [row_a\<lparr>updated_at := 9\<rparr>, row_b\<lparr>updated_at := 12\<rparr>, row_c,
                 row_a\<lparr>pk := 12, created_at := 7, updated_at := 8\<rparr>,
                 row_b\<lparr>pk := 13, name := ''Bb'', created_at := 10, updated_at := 11\<rparr>],
     People_tags := [(8, 3), (9, 3), (12, 3), (13, 3)],
     PeopleToFood := [(8, 1), (9, 2), (12, 1), (13, 2)],
     PeopleToFriend := [(8, 9), (8, 10), (12, 9), (12, 13)],
     IngestedFiles_objects := IngestedFiles_objects db1
       @ [\<lparr>ingested_pk = 15, companyfile_hash = ''c1'', peoplefile_hash = ''p6'', ingested_on = 15\<rparr>],
     writes := 49, uuid4_next := 16, clock := 16\<rparr>"

text \<open>A population of one, C, for the file of two organizations: the database after
  \<^verbatim>\<open>ingest_companies\<close>, the lookup it returns, the database after \<^verbatim>\<open>ingest_people\<close>
  and after the whole of \<^verbatim>\<open>ingest_data\<close>.\<close>

definition people5 :: "person_json list data_file" where
  "people5 = \<lparr>get_hash = ''p5'', json_load = [person_c]\<rparr>"

definition db_orgs :: db where
  "db_orgs = db_empty\<lparr>Company_objects := [\<lparr>company_pk = 0, company_name = ''Acme''\<rparr>,
                                          \<lparr>company_pk = 1, company_name = ''Bolt''\<rparr>],
     writes := 2, uuid4_next := 2\<rparr>"

definition company_lookup2 :: "int \<rightharpoonup> Company" where
  "company_lookup2 = [0 \<mapsto> \<lparr>company_pk = 0, company_name = ''Acme''\<rparr>,
                      1 \<mapsto> \<lparr>company_pk = 1, company_name = ''Bolt''\<rparr>]"

definition db_orgs_c :: db where
  "db_orgs_c = db_orgs\<lparr>Gender_objects := [\<lparr>ent_pk = 2, ent_key = ''male'', food_type = None\<rparr>],
     EyeColor_objects := [\<lparr>ent_pk = 3, ent_key = ''blue'', food_type = None\<rparr>],
     People_object := [row_c\<lparr>pk := 4, eye_color_id := Some 3, gender_id := Some 2,
                             created_at := 0, updated_at := 1\<rparr>],
     writes := 12, uuid4_next := 5, clock := 2\<rparr>"

definition db5 :: db where
  "db5 = db_orgs_c\<lparr>IngestedFiles_objects := [\<lparr>ingested_pk = 5, companyfile_hash = ''c2'',
                                               peoplefile_hash = ''p5'', ingested_on = 2\<rparr>],
     writes := 13, uuid4_next := 6, clock := 3\<rparr>"

text \<open>The lookups that \<^verbatim>\<open>ingest_people\<close> builds in \<open>db1\<close> for the three persons, and
  a record of A whose timestamp has spaces before, inside and after it.\<close>

definition lookups1 :: lookups where
  "lookups1 = \<lparr>foods_lookup = [''apple'' \<mapsto> \<lparr>ent_pk = 1, ent_key = ''apple'', food_type = Some FRUIT\<rparr>,
                                ''carrot'' \<mapsto> \<lparr>ent_pk = 2, ent_key = ''carrot'', food_type = Some VEGETABLE\<rparr>],
     tags_lookup = [''x'' \<mapsto> \<lparr>ent_pk = 3, ent_key = ''x'', food_type = None\<rparr>],
     gender_lookup = [''female'' \<mapsto> \<lparr>ent_pk = 4, ent_key = ''female'', food_type = None\<rparr>,
                      ''male'' \<mapsto> \<lparr>ent_pk = 5, ent_key = ''male'', food_type = None\<rparr>],
     eye_color_lookup = [''brown'' \<mapsto> \<lparr>ent_pk = 6, ent_key = ''brown'', food_type = None\<rparr>,
                         ''blue'' \<mapsto> \<lparr>ent_pk = 7, ent_key = ''blue'', food_type = None\<rparr>],
     index_uuid = [0 \<mapsto> 10, 1 \<mapsto> 11, 2 \<mapsto> 12],
     company_lookup = [0 \<mapsto> \<lparr>company_pk = 0, company_name = ''Acme''\<rparr>]\<rparr>"

definition person_d :: person_json where
  "person_d = person_a\<lparr>j_registered := '' 2016-07-13 T12:29  -10:00 ''\<rparr>"

section \<open>Evaluation of the scenario\<close>

named_theorems run \<open>the definitions that evaluate a run\<close>

lemma bind_result_weak_cong: "r = r' \<Longrightarrow> bind_result r f = bind_result r' f"
  by simp

lemma bind_result_Inr: "bind_result (Inr a, s) f = f a s"
  by (simp add: bind_result_def)

lemma bind_result_Inl: "bind_result (Inl e, s) f = (Inl e, s)"
  by (simp add: bind_result_def)

lemma for_each_Nil: "for_each f [] acc s = (Inr acc, s)"
  by simp

lemma for_each_Cons: "for_each f (x # xs) acc s = bind_result (f x acc s) (for_each f xs)"
  by (simp add: bind_result_def split: prod.splits sum.splits)

declare for_each.simps [simp del]

lemma set_eq_list: "(set xs = set ys) = ((\<forall>x\<in>set xs. x \<in> set ys) \<and> (\<forall>y\<in>set ys. y \<in> set xs))"
  by auto

lemmas [run] = bind_result_Inr bind_result_Inl for_each_Nil for_each_Cons set_eq_list
  ret_def lift_def then_do_def getitem_def
  UUID_def strip_chars_def hex_val_def py_isspace_def int16_def
  parse_datetime_def datetime_re_def digit_run_def expect_def match_second_def match_tzinfo_def
  at_end_def tz_offset_def int10_def days_in_month_def is_leap_def ljust_def is_digit_def
  datetime_eq_def utc_micros_def ymd2ord_def days_before_year_def
  type_lookup_def classify_def uuid4_def now_def upsert_def save_row_def Company_save_def entity_save_def
  get_or_create_def People_save_def related_all_def related_set_def tags_set_def favourite_food_set_def
  friends_set_def People_active_filter_def instance_of_def registered_eq_def People_eq_def
  create_lookup_step_def create_lookup_def ingest_companies_step_def ingest_companies_def
  dict_add_def remove_spaces_def candidate_def persist_def friends_all_def unchanged_def reconcile_def
  link_friends_def reconcile_all_def link_all_def ingest_people_def IngestedFiles_save_def
  ingest_data_def Let_def People.truncate_def People.extend_def
  db_empty_def person_a_def person_b_def person_c_def companies1_def companies2_def
  people1_def people2_def people4_def people6_def row_a_def row_b_def row_c_def
  db1_def db2_def db3_def db6_def
  people5_def db_orgs_def company_lookup2_def db_orgs_c_def db5_def

lemma run1: "ingest_data companies1 people1 db_empty = (Inr (), db1)"
  by (simp add: run cong: bind_result_weak_cong)

lemma run2: "ingest_data companies1 people2 db1 = (Inr (), db2)"
  by (simp add: run cong: bind_result_weak_cong)

lemma run3: "ingest_data companies2 people2 db2 = (Inr (), db3)"
  by (simp add: run cong: bind_result_weak_cong)

lemma run6: "ingest_data companies1 people6 db1 = (Inr (), db6)"
  by (simp add: run cong: bind_result_weak_cong)

lemma run5: "ingest_data companies2 people5 db_empty = (Inr (), db5)"
  by (simp add: run cong: bind_result_weak_cong)

lemma eval_orgs: "ingest_companies (json_load companies2) db_empty = (Inr company_lookup2, db_orgs)"
  by (simp add: run cong: bind_result_weak_cong)

lemma eval_people5: "ingest_people (json_load people5) company_lookup2 db_orgs = (Inr (), db_orgs_c)"
  by (simp add: run cong: bind_result_weak_cong)

section \<open>The organization loader refuses duplicates\<close>

lemma remdups_length_distinct:
  "length xs \<noteq> length (remdups (map f xs)) \<longleftrightarrow> \<not> distinct (map f xs)"
  by (metis distinct_remdups length_map length_remdups_eq remdups_id_iff_distinct)

text \<open>
  C8. When two records of the organization file have the same index, or the same name,
  \<^verbatim>\<open>ingest_companies\<close> raises \<^verbatim>\<open>AssertionError\<close> and leaves the database as it
  found it; so does \<^verbatim>\<open>ingest_data\<close>, unless it skips the pair of files as ingested
  before.
\<close>

theorem duplicate_organizations_fail:
  assumes "\<not> distinct (map c_index cs) \<or> \<not> distinct (map c_company cs)"
  shows "ingest_companies cs s = (Inl AssertionError, s)
    \<and> (filter (\<lambda>r. companyfile_hash r = h \<and> peoplefile_hash r = get_hash pf)
          (IngestedFiles_objects s) = []
       \<longrightarrow> ingest_data \<lparr>get_hash = h, json_load = cs\<rparr> pf s = (Inl AssertionError, s))"
proof -
  have a: "ingest_companies cs s = (Inl AssertionError, s)"
    using assms by (auto simp: ingest_companies_def Let_def remdups_length_distinct)
  then show ?thesis
    by (simp add: ingest_data_def then_do_def bind_result_Inl)
qed

theorem duplicate_organizations_fail_witness:
  "ingest_companies [\<lparr>c_index = 0, c_company = ''Acme''\<rparr>, \<lparr>c_index = 1, c_company = ''Acme''\<rparr>] db_empty
     = (Inl AssertionError, db_empty)
   \<and> ingest_data \<lparr>get_hash = ''c'', json_load = [\<lparr>c_index = 0, c_company = ''Acme''\<rparr>,
          \<lparr>c_index = 1, c_company = ''Acme''\<rparr>]\<rparr> people1 db_empty = (Inl AssertionError, db_empty)"
  using duplicate_organizations_fail [of "[\<lparr>c_index = 0, c_company = ''Acme''\<rparr>,
      \<lparr>c_index = 1, c_company = ''Acme''\<rparr>]" db_empty "''c''" people1]
  by (simp add: db_empty_def)

section \<open>A pair of files is ingested once\<close>

lemma then_do_Inr_iff:
  "then_do m f s = (Inr b, s'') \<longleftrightarrow> (\<exists>a s'. m s = (Inr a, s') \<and> f a s' = (Inr b, s''))"
  by (cases "m s") (auto simp: then_do_def bind_result_def split: sum.splits)

text \<open>
  C4. After a run of \<^verbatim>\<open>ingest_data\<close> that has returned, the pair of digests is
  recorded, and a second run on the same two files returns at once: it leaves the
  database, the count of writes included, exactly as the first run left it.
\<close>

theorem second_run_is_skipped:
  assumes "ingest_data company_file people_file s = (Inr (), s1)"
  shows "(\<exists>r \<in> set (IngestedFiles_objects s1).
            companyfile_hash r = get_hash company_file \<and> peoplefile_hash r = get_hash people_file)
       \<and> ingest_data company_file people_file s1 = (Inr (), s1)"
proof -
  let ?P = "\<lambda>r. companyfile_hash r = get_hash company_file \<and> peoplefile_hash r = get_hash people_file"
  have rec: "\<exists>r \<in> set (IngestedFiles_objects s1). ?P r"
  proof (cases "filter ?P (IngestedFiles_objects s) = []")
    case False
    then have "s1 = s" using assms by (simp add: ingest_data_def)
    moreover from False obtain r where "r \<in> set (filter ?P (IngestedFiles_objects s))"
      by (cases "filter ?P (IngestedFiles_objects s)") auto
    ultimately show ?thesis by auto
  next
    case True
    with assms obtain i t s' where
      sv: "IngestedFiles_save True \<lparr>ingested_pk = i, companyfile_hash = get_hash company_file,
              peoplefile_hash = get_hash people_file, ingested_on = t\<rparr> s' = (Inr (), s1)"
      by (auto simp: ingest_data_def then_do_Inr_iff)
    then show ?thesis
      by (auto simp: IngestedFiles_save_def save_row_def split: if_splits)
  qed
  then have "filter ?P (IngestedFiles_objects s1) \<noteq> []"
    by (auto simp: filter_empty_conv)
  then have "ingest_data company_file people_file s1 = (Inr (), s1)"
    by (simp add: ingest_data_def)
  with rec show ?thesis by blast
qed

theorem second_run_is_skipped_witness:
  "ingest_data companies1 people1 db_empty = (Inr (), db1)
   \<and> (\<exists>r \<in> set (IngestedFiles_objects db1).
         companyfile_hash r = get_hash companies1 \<and> peoplefile_hash r = get_hash people1)
   \<and> ingest_data companies1 people1 db1 = (Inr (), db1)"
  using second_run_is_skipped [OF run1] run1 by simp

section \<open>The lookup of a dimension model\<close>


lemma objects_objects_update [simp]:
  "objects (objects_update m rows s) m' = (if m' = m then rows else objects s m')"
  by (cases m; cases m') simp_all

lemma objects_writes_update [simp]: "objects (s\<lparr>writes := w\<rparr>) m = objects s m"
  by (cases m) simp_all

lemma objects_uuid4_update [simp]: "objects (s\<lparr>uuid4_next := n\<rparr>) m = objects s m"
  by (cases m) simp_all

lemma writes_objects_update [simp]: "writes (objects_update m rows s) = writes s"
  by (cases m) simp_all

lemma uuid4_next_objects_update [simp]: "uuid4_next (objects_update m rows s) = uuid4_next s"
  by (cases m) simp_all

lemma classify_idem [simp]: "classify m (classify m e) = classify m e"
  by (auto simp: classify_def split: option.splits)

lemma classify_key [simp]: "ent_key (classify m e) = ent_key e" "ent_pk (classify m e) = ent_pk e"
  by (auto simp: classify_def split: option.splits)

lemma upsert_last: "key x \<notin> key ` set xs \<Longrightarrow> upsert key x (xs @ [x]) = xs @ [x]"
proof -
  assume a: "key x \<notin> key ` set xs"
  then have "map (\<lambda>y. if key y = key x then x else y) xs = xs"
    by (intro map_idI) (metis (mono_tags) image_eqI)
  then show ?thesis by (simp add: upsert_def)
qed

lemma create_lookup_step_skip:
  "L v \<noteq> None \<Longrightarrow> create_lookup_step m v L s = (Inr L, s)"
  by (auto simp: create_lookup_step_def ret_def)

lemma create_lookup_step_found:
  "L v = None \<Longrightarrow> filter (\<lambda>e. ent_key e = v) (objects s m) = [e]
   \<Longrightarrow> create_lookup_step m v L s = (Inr (L(v \<mapsto> e)), s)"
  by (simp add: create_lookup_step_def get_or_create_def then_do_def bind_result_def ret_def)

lemma create_lookup_step_cases:
  assumes "create_lookup_step m v L s = (Inr L', s')"
  shows "(L v \<noteq> None \<and> L' = L \<and> s' = s)
       \<or> (L v = None \<and> s' = s \<and> (\<exists>e. filter (\<lambda>e. ent_key e = v) (objects s m) = [e] \<and> L' = L(v \<mapsto> e)))
       \<or> (L v = None \<and> filter (\<lambda>e. ent_key e = v) (objects s m) = []
           \<and> (\<exists>e. ent_key e = v \<and> L' = L(v \<mapsto> e) \<and> objects s' m = objects s m @ [e])
           \<and> writes s' = writes s + 2)"
proof (cases "L v")
  case (Some a)
  then show ?thesis using assms by (auto simp: create_lookup_step_def ret_def)
next
  case None
  show ?thesis
  proof (cases "filter (\<lambda>e. ent_key e = v) (objects s m)")
    case Nil
    then show ?thesis using assms None
      by (auto simp: create_lookup_step_def get_or_create_def then_do_def bind_result_def ret_def
          uuid4_def entity_save_def save_row_def Let_def upsert_last
          split: if_splits)
  next
    case (Cons a list)
    then show ?thesis using assms None
      by (cases list) (auto simp: create_lookup_step_def get_or_create_def then_do_def bind_result_def ret_def)
  qed
qed

lemma create_lookup_loop_stable:
  assumes "for_each (create_lookup_step m) vs L s = (Inr L1, s1)" and "L v = Some e"
  shows "L1 v = Some e
       \<and> filter (\<lambda>e. ent_key e = v) (objects s1 m) = filter (\<lambda>e. ent_key e = v) (objects s m)"
  using assms
proof (induction vs arbitrary: L s)
  case Nil
  then show ?case by (simp add: for_each.simps)
next
  case (Cons w vs)
  from Cons.prems(1) obtain La sa where
    st: "create_lookup_step m w L s = (Inr La, sa)" and
    rest: "for_each (create_lookup_step m) vs La sa = (Inr L1, s1)"
    by (auto simp: for_each.simps split: prod.splits sum.splits)
  from create_lookup_step_cases [OF st] Cons.prems(2)
  have "La v = Some e
      \<and> filter (\<lambda>e. ent_key e = v) (objects sa m) = filter (\<lambda>e. ent_key e = v) (objects s m)"
    by auto
  with Cons.IH [OF rest] show ?case by simp
qed

lemma create_lookup_loop_again:
  assumes "for_each (create_lookup_step m) vs L s = (Inr L1, s1)"
  shows "for_each (create_lookup_step m) vs L s1 = (Inr L1, s1)"
  using assms
proof (induction vs arbitrary: L s)
  case Nil
  then show ?case by (simp add: for_each.simps)
next
  case (Cons v vs)
  from Cons.prems obtain La sa where
    st: "create_lookup_step m v L s = (Inr La, sa)" and
    rest: "for_each (create_lookup_step m) vs La sa = (Inr L1, s1)"
    by (auto simp: for_each.simps split: prod.splits sum.splits)
  have again: "for_each (create_lookup_step m) vs La s1 = (Inr L1, s1)"
    by (rule Cons.IH [OF rest])
  show ?case
  proof (cases "L v")
    case (Some a)
    with create_lookup_step_cases [OF st] have "La = L" by auto
    with Some again show ?thesis
      by (simp add: for_each.simps create_lookup_step_skip)
  next
    case None
    with create_lookup_step_cases [OF st] obtain e where
      e: "La = L(v \<mapsto> e)" "filter (\<lambda>e. ent_key e = v) (objects sa m) = [e]"
      by auto
    then have "La v = Some e" by simp
    from create_lookup_loop_stable [OF rest this] e(2)
    have "filter (\<lambda>e. ent_key e = v) (objects s1 m) = [e]" by simp
    with None have "create_lookup_step m v L s1 = (Inr (L(v \<mapsto> e)), s1)"
      by (rule create_lookup_step_found)
    with e(1) again show ?thesis
      by (simp add: for_each.simps)
  qed
qed

lemma create_lookup_loop_count:
  assumes "for_each (create_lookup_step m) vs L s = (Inr L1, s1)"
  shows "length (objects s1 m)
           = length (objects s m) + card {v \<in> set vs. L v = None \<and> v \<notin> ent_key ` set (objects s m)}
       \<and> writes s1 = writes s + 2 * card {v \<in> set vs. L v = None \<and> v \<notin> ent_key ` set (objects s m)}"
  using assms
proof (induction vs arbitrary: L s)
  case Nil
  then show ?case by (simp add: for_each.simps)
next
  case (Cons v vs)
  let ?N = "\<lambda>L s vs. {v \<in> set vs. L v = None \<and> v \<notin> ent_key ` set (objects s m)}"
  from Cons.prems obtain La sa where
    st: "create_lookup_step m v L s = (Inr La, sa)" and
    rest: "for_each (create_lookup_step m) vs La sa = (Inr L1, s1)"
    by (auto simp: for_each.simps split: prod.splits sum.splits)
  note ih = Cons.IH [OF rest]
  have fin: "finite (?N La sa vs)" by simp
  from create_lookup_step_cases [OF st]
  consider (skip) "L v \<noteq> None" "La = L" "sa = s"
    | (found) e where "L v = None" "sa = s" "filter (\<lambda>e. ent_key e = v) (objects s m) = [e]" "La = L(v \<mapsto> e)"
    | (new) e where "L v = None" "filter (\<lambda>e. ent_key e = v) (objects s m) = []" "ent_key e = v"
        "La = L(v \<mapsto> e)" "objects sa m = objects s m @ [e]" "writes sa = writes s + 2"
    by blast
  then show ?case
  proof cases
    case skip
    then have "?N L s (v # vs) = ?N La sa vs" by auto
    with ih skip show ?thesis by simp
  next
    case found
    then have "e \<in> set (filter (\<lambda>e. ent_key e = v) (objects s m))" by simp
    then have "v \<in> ent_key ` set (objects s m)" by auto
    with found have "?N L s (v # vs) = ?N La sa vs" by auto
    with ih found show ?thesis by simp
  next
    case new
    from new(2) have nv: "v \<notin> ent_key ` set (objects s m)"
      by (auto simp: filter_empty_conv)
    with new have "?N L s (v # vs) = insert v (?N La sa vs)" by auto
    moreover have "v \<notin> ?N La sa vs" using new by simp
    ultimately have "card (?N L s (v # vs)) = card (?N La sa vs) + 1"
      using fin by simp
    with ih new show ?thesis by simp
  qed
qed




lemma lookup_food_eval:
  "create_lookup Food [''apple'', ''kiwi'', ''apple''] None db1
     = (Inr [''apple'' \<mapsto> \<lparr>ent_pk = 1, ent_key = ''apple'', food_type = Some FRUIT\<rparr>,
             ''kiwi'' \<mapsto> \<lparr>ent_pk = 12, ent_key = ''kiwi'', food_type = Some UNCLASSIFIED\<rparr>],
        db1\<lparr>Food_objects := Food_objects db1 @ [\<lparr>ent_pk = 12, ent_key = ''kiwi'', food_type = Some UNCLASSIFIED\<rparr>],
            writes := 36, uuid4_next := 13\<rparr>)"
  by (simp add: run cong: bind_result_weak_cong)


text \<open>
  C9, as it is stated, fails: for the one new value \<^verbatim>\<open>x\<close>,
  \<^verbatim>\<open>create_lookup\<close> writes twice, once in \<^verbatim>\<open>get_or_create\<close> and once more in the
  \<^verbatim>\<open>save\<close> that follows \<^verbatim>\<open>if created\<close>.
\<close>

theorem create_lookup_one_write_counterexample:
  "create_lookup Tag [''x''] None db_empty
     = (Inr [''x'' \<mapsto> \<lparr>ent_pk = 0, ent_key = ''x'', food_type = None\<rparr>],
        db_empty\<lparr>Tag_objects := [\<lparr>ent_pk = 0, ent_key = ''x'', food_type = None\<rparr>],
                 writes := 2, uuid4_next := 1\<rparr>)"
  by (simp add: run cong: bind_result_weak_cong)


text \<open>
  C9, amended. A call of \<^verbatim>\<open>create_lookup\<close> that returns has added one row for each
  value that was neither in the given mapping nor in the table, has written twice for
  each of them and not at all for the others; a second call with the same arguments
  returns the same mapping and leaves the database, the count of writes included, as
  it is.
\<close>

theorem create_lookup_writes:
  assumes "create_lookup m vs existing_lookup s = (Inr L1, s1)"
    and "L = (case existing_lookup of None \<Rightarrow> Map.empty | Some l \<Rightarrow> l)"
  shows "length (objects s1 m)
           = length (objects s m) + card {v \<in> set vs. L v = None \<and> v \<notin> ent_key ` set (objects s m)}
       \<and> writes s1 = writes s + 2 * card {v \<in> set vs. L v = None \<and> v \<notin> ent_key ` set (objects s m)}
       \<and> create_lookup m vs existing_lookup s1 = (Inr L1, s1)"
  using assms create_lookup_loop_count [of m vs L s L1 s1] create_lookup_loop_again [of m vs L s L1 s1]
  by (simp add: create_lookup_def)


theorem create_lookup_writes_witness:
  "create_lookup Food [''apple'', ''kiwi'', ''apple''] None db1
     = (Inr [''apple'' \<mapsto> \<lparr>ent_pk = 1, ent_key = ''apple'', food_type = Some FRUIT\<rparr>,
             ''kiwi'' \<mapsto> \<lparr>ent_pk = 12, ent_key = ''kiwi'', food_type = Some UNCLASSIFIED\<rparr>],
        db1\<lparr>Food_objects := Food_objects db1 @ [\<lparr>ent_pk = 12, ent_key = ''kiwi'', food_type = Some UNCLASSIFIED\<rparr>],
            writes := 36, uuid4_next := 13\<rparr>)
   \<and> writes db1 = 34
   \<and> card {v \<in> set [''apple'', ''kiwi'', ''apple'']. Map.empty v = (None :: entity option)
             \<and> v \<notin> ent_key ` set (objects db1 Food)} = 1
   \<and> create_lookup Food [''apple'', ''kiwi'', ''apple''] None
        (db1\<lparr>Food_objects := Food_objects db1 @ [\<lparr>ent_pk = 12, ent_key = ''kiwi'', food_type = Some UNCLASSIFIED\<rparr>],
            writes := 36, uuid4_next := 13\<rparr>)
     = (Inr [''apple'' \<mapsto> \<lparr>ent_pk = 1, ent_key = ''apple'', food_type = Some FRUIT\<rparr>,
             ''kiwi'' \<mapsto> \<lparr>ent_pk = 12, ent_key = ''kiwi'', food_type = Some UNCLASSIFIED\<rparr>],
        db1\<lparr>Food_objects := Food_objects db1 @ [\<lparr>ent_pk = 12, ent_key = ''kiwi'', food_type = Some UNCLASSIFIED\<rparr>],
            writes := 36, uuid4_next := 13\<rparr>)"
proof -
  let ?s1 = "db1\<lparr>Food_objects := Food_objects db1 @ [\<lparr>ent_pk = 12, ent_key = ''kiwi'', food_type = Some UNCLASSIFIED\<rparr>],
            writes := 36, uuid4_next := 13\<rparr>"
  let ?N = "card {v \<in> set [''apple'', ''kiwi'', ''apple'']. Map.empty v = (None :: entity option)
             \<and> v \<notin> ent_key ` set (objects db1 Food)}"
  have l: "(Map.empty :: string \<rightharpoonup> entity) = (case None of None \<Rightarrow> Map.empty | Some l \<Rightarrow> l)"
    by simp
  note w = create_lookup_writes [OF lookup_food_eval l]
  have a: "writes db1 = 34"
    by (simp add: db1_def)
  have b: "writes ?s1 = 36"
    by simp
  from w have "writes ?s1 = writes db1 + 2 * ?N"
    by blast
  with a b have "?N = 1"
    by linarith
  with w a lookup_food_eval show ?thesis by blast
qed

section \<open>What one record does to the database\<close>

lemma People_save_insert:
  assumes "People_save True p s = (Inr u, s')"
  shows "pk p \<notin> pk ` set (People_object s) \<and> registered p \<noteq> None
       \<and> s' = s\<lparr>People_object := People_object s @ [People.truncate p], writes := writes s + 1\<rparr>"
  using assms by (auto simp: People_save_def save_row_def People.truncate_def split: if_splits)

lemma People_save_update:
  assumes "People_save False p s = (Inr u, s')"
  shows "registered p \<noteq> None
       \<and> s' = s\<lparr>People_object := upsert pk (People.truncate p) (People_object s), writes := writes s + 1\<rparr>"
  using assms by (auto simp: People_save_def save_row_def split: if_splits)

lemma pk_truncate [simp]: "pk (People.truncate p) = pk p"
  by (simp add: People.truncate_def)

lemma persist_effect:
  assumes "persist cur fds tgs frs combos s = (Inr combos', s')"
  shows "pk cur \<notin> pk ` set (People_object s) \<and> combos' = combos @ [(cur, frs)]
       \<and> s' = s\<lparr>People_object := People_object s @ [People.truncate cur],
                 People_tags := related_set (pk cur) tgs (People_tags s),
                 PeopleToFood := related_set (pk cur) fds (PeopleToFood s),
                 writes := writes s + 4\<rparr>"
proof -
  from assms obtain s1 s2 s3 where
    a: "People_save True cur s = (Inr (), s1)" and
    b: "tags_set cur tgs s1 = (Inr (), s2)" and
    c: "favourite_food_set cur fds s2 = (Inr (), s3)" and
    d: "People_save False cur s3 = (Inr (), s')" and
    e: "combos' = combos @ [(cur, frs)]"
    by (auto simp: persist_def then_do_Inr_iff ret_def)
  note a' = People_save_insert [OF a] and d' = People_save_update [OF d]
  from b have b': "s2 = s1\<lparr>People_tags := related_set (pk cur) tgs (People_tags s1), writes := writes s1 + 1\<rparr>"
    by (simp add: tags_set_def)
  from c have c': "s3 = s2\<lparr>PeopleToFood := related_set (pk cur) fds (PeopleToFood s2), writes := writes s2 + 1\<rparr>"
    by (simp add: favourite_food_set_def)
  from a' have "upsert pk (People.truncate cur) (People_object s @ [People.truncate cur])
      = People_object s @ [People.truncate cur]"
    by (intro upsert_last) simp
  with a' b' c' d' e show ?thesis by simp
qed

lemma candidate_effect:
  assumes "candidate L p s = (Inr (cur, fds, tgs, frs), s')"
  shows "s' = s\<lparr>uuid4_next := uuid4_next s + 1, clock := clock s + 2\<rparr>
       \<and> UUID (j_guid p) = Inr (guid cur)
       \<and> (\<exists>c. company_lookup L (j_company_id p - 1) = Some c \<and> company_id cur = Some (company_pk c))
       \<and> is_active cur \<and> pk cur = uuid4_next s
       \<and> getitems (index_uuid L) (j_friends p) = Inr frs"
  using assms
  by (auto simp: candidate_def then_do_Inr_iff lift_def ret_def uuid4_def now_def getitem_def
      split: option.splits)

lemma truncate_stamped [simp]:
  "People.truncate ((instance_of r)\<lparr>updated_at := t, active := a\<rparr>) = r\<lparr>updated_at := t\<rparr>"
  by (simp add: instance_of_def People.truncate_def People.extend_def)

lemma pk_image_upsert [simp]: "key ` set (upsert key x xs) = insert (key x) (key ` set xs)"
  by (auto simp: upsert_def image_iff)

lemma reconcile_cases:
  assumes "reconcile L p combos s = (Inr combos', s')"
  obtains
    (same) cur fds tgs frs s0 r rest where
      "candidate L p s = (Inr (cur, fds, tgs, frs), s0)"
      "People_active_filter s0 (\<lambda>r. guid r = guid cur) = r # rest"
      "unchanged s0 cur (instance_of r) fds tgs frs"
      "combos' = combos" "s' = s0"
  | (replaced) cur fds tgs frs s0 r rest where
      "candidate L p s = (Inr (cur, fds, tgs, frs), s0)"
      "People_active_filter s0 (\<lambda>r. guid r = guid cur) = r # rest"
      "\<not> unchanged s0 cur (instance_of r) fds tgs frs"
      "combos' = combos @ [(cur, frs)]"
      "pk cur \<notin> pk ` set (People_object s0)"
      "s' = s0\<lparr>clock := clock s0 + 1,
               People_object := upsert pk (r\<lparr>updated_at := clock s0\<rparr>) (People_object s0)
                                @ [People.truncate cur],
               People_tags := related_set (pk cur) tgs (People_tags s0),
               PeopleToFood := related_set (pk cur) fds (PeopleToFood s0),
               writes := writes s0 + 5\<rparr>"
  | (created) cur fds tgs frs s0 where
      "candidate L p s = (Inr (cur, fds, tgs, frs), s0)"
      "People_active_filter s0 (\<lambda>r. guid r = guid cur) = []"
      "combos' = combos @ [(cur, frs)]"
      "pk cur \<notin> pk ` set (People_object s0)"
      "s' = s0\<lparr>People_object := People_object s0 @ [People.truncate cur],
               People_tags := related_set (pk cur) tgs (People_tags s0),
               PeopleToFood := related_set (pk cur) fds (PeopleToFood s0),
               writes := writes s0 + 4\<rparr>"
proof -
  from assms obtain cur fds tgs frs s0 where
    cand: "candidate L p s = (Inr (cur, fds, tgs, frs), s0)" and
    rest: "(case People_active_filter s0 (\<lambda>r. guid r = guid cur) of
            [] \<Rightarrow> persist cur fds tgs frs combos s0
          | r # _ \<Rightarrow>
              (let existing_person = instance_of r in
               if \<not> unchanged s0 cur existing_person fds tgs frs
               then then_do now (\<lambda>t.
                    then_do (People_save False (existing_person\<lparr>updated_at := t, active := Some False\<rparr>)) (\<lambda>_.
                      persist cur fds tgs frs combos)) s0
               else (Inr combos, s0))) = (Inr combos', s')"
    by (auto simp: reconcile_def then_do_Inr_iff)
  show thesis
  proof (cases "People_active_filter s0 (\<lambda>r. guid r = guid cur)")
    case Nil
    with rest have "persist cur fds tgs frs combos s0 = (Inr combos', s')" by simp
    from persist_effect [OF this] cand Nil show thesis
      by (intro created [of cur fds tgs frs s0]) auto
  next
    case (Cons r rs)
    show thesis
    proof (cases "unchanged s0 cur (instance_of r) fds tgs frs")
      case True
      with rest Cons cand show thesis
        by (intro same [of cur fds tgs frs s0 r rs]) auto
    next
      case False
      with rest Cons obtain s1 s2 where
        a: "now s0 = (Inr (clock s0), s1)" and
        b: "People_save False ((instance_of r)\<lparr>updated_at := clock s0, active := Some False\<rparr>) s1 = (Inr (), s2)" and
        c: "persist cur fds tgs frs combos s2 = (Inr combos', s')"
        by (auto simp: then_do_Inr_iff now_def)
      from a have a': "s1 = s0\<lparr>clock := clock s0 + 1\<rparr>" by (simp add: now_def)
      note b' = People_save_update [OF b] and c' = persist_effect [OF c]
      from a' b' c' have "pk cur \<notin> pk ` set (People_object s0)" by simp
      with a' b' c' cand Cons False show thesis
        by (intro replaced [of cur fds tgs frs s0 r rs]) auto
    qed
  qed
qed

lemma stable_fields [simp]:
  "pk (stable r) = pk r" "guid (stable r) = guid r" "is_active (stable r) = is_active r"
  "company_id (stable r) = company_id r" "stable (r\<lparr>updated_at := t\<rparr>) = stable r"
  by (simp_all add: stable_def)

lemma stable_eq_fields:
  assumes "stable r = stable r'"
  shows "pk r = pk r'" "guid r = guid r'" "is_active r = is_active r'" "company_id r = company_id r'"
  using assms stable_fields by metis+

lemma upsert_stable:
  assumes "distinct (map pk rows)" and "stable x \<in> stable ` set rows"
  shows "map stable (upsert pk x rows) = map stable rows"
proof -
  from assms(2) obtain r where r: "r \<in> set rows" "stable x = stable r" by auto
  from r(2) have pkx: "pk x = pk r" by (rule stable_eq_fields(1))
  have "\<And>y. y \<in> set rows \<Longrightarrow> pk y = pk x \<Longrightarrow> stable x = stable y"
  proof -
    fix y assume "y \<in> set rows" "pk y = pk x"
    with assms(1) r pkx have "y = r"
      by (metis distinct_map inj_on_def)
    with r show "stable x = stable y" by simp
  qed
  moreover from r pkx have "pk x \<in> pk ` set rows" by auto
  ultimately show ?thesis
    by (auto simp: upsert_def)
qed

lemma upsert_distinct:
  "distinct (map key rows) \<Longrightarrow> distinct (map key (upsert key x rows))"
proof -
  assume d: "distinct (map key rows)"
  have m: "map key (map (\<lambda>y. if key y = key x then x else y) rows) = map key rows"
    by (induction rows) auto
  show ?thesis
  proof (cases "key x \<in> key ` set rows")
    case True
    then have "upsert key x rows = map (\<lambda>y. if key y = key x then x else y) rows"
      by (simp add: upsert_def)
    with m d show ?thesis by (simp only:)
  next
    case False
    with d show ?thesis by (simp add: upsert_def)
  qed
qed

lemma reconcile_inv:
  assumes "recorded_ok s cs" and "reconcile L p cs s = (Inr cs', s')"
  shows "recorded_ok s' cs'
       \<and> (\<exists>new. map stable (People_object s') = map stable (People_object s) @ new)
       \<and> (\<exists>ds. cs' = cs @ ds \<and> (\<forall>c \<in> set ds. pk (fst c) \<notin> pk ` set (People_object s)))
       \<and> PeopleToFriend s' = PeopleToFriend s"
  using assms(2)
proof (cases rule: reconcile_cases)
  case (same cur fds tgs frs s0 r rest)
  from candidate_effect [OF same(1)] same(4,5) assms(1) show ?thesis
    by (auto simp: recorded_ok_def)
next
  case (replaced cur fds tgs frs s0 r rest)
  note ce = candidate_effect [OF replaced(1)]
  from ce have rows0: "People_object s0 = People_object s" "PeopleToFriend s0 = PeopleToFriend s" by auto
  from replaced(2) have "r \<in> set (People_active_filter s0 (\<lambda>r. guid r = guid cur))" by simp
  then have rin: "r \<in> set (People_object s)"
    using rows0 by (auto simp: People_active_filter_def)
  from assms(1) have d: "distinct (map pk (People_object s))" by (simp add: recorded_ok_def)
  from rin have "stable (r\<lparr>updated_at := clock s0\<rparr>) \<in> stable ` set (People_object s)" by auto
  from upsert_stable [OF d this]
  have st: "map stable (upsert pk (r\<lparr>updated_at := clock s0\<rparr>) (People_object s)) = map stable (People_object s)" .
  have rows': "People_object s' = upsert pk (r\<lparr>updated_at := clock s0\<rparr>) (People_object s) @ [People.truncate cur]"
    using replaced(6) rows0 by simp
  have new: "pk cur \<notin> pk ` set (People_object s)" using replaced(5) rows0 by simp
  have set_st: "stable ` set (People_object s') = insert (stable (People.truncate cur)) (stable ` set (People_object s))"
    using st rows' by (metis (no_types, lifting) Un_insert_right append_Nil2 image_set list.simps(15) map_append set_append list.map(1,2))
  have pks: "\<And>c. c \<in> set cs \<Longrightarrow> pk (fst c) \<in> pk ` set (People_object s)"
  proof -
    fix c assume "c \<in> set cs"
    with assms(1) obtain r' where "r' \<in> set (People_object s)" "stable (People.truncate (fst c)) = stable r'"
      by (auto simp: recorded_ok_def)
    then show "pk (fst c) \<in> pk ` set (People_object s)"
      using stable_eq_fields(1) [of "People.truncate (fst c)" r'] by auto
  qed
  have "distinct (map pk (People_object s'))"
    using rows' upsert_distinct [OF d] new by (simp add: pk_image_upsert insert_absorb rin image_iff) 
  moreover have "distinct (map (\<lambda>c. pk (fst c)) cs')"
    using assms(1) replaced(4) new pks by (auto simp: recorded_ok_def)
  moreover have "\<forall>c \<in> set cs'. stable (People.truncate (fst c)) \<in> stable ` set (People_object s')"
    using assms(1) replaced(4) set_st by (auto simp: recorded_ok_def)
  ultimately have "recorded_ok s' cs'" by (simp add: recorded_ok_def)
  moreover have "\<exists>new. map stable (People_object s') = map stable (People_object s) @ new"
    using rows' st by simp
  moreover have "\<exists>ds. cs' = cs @ ds \<and> (\<forall>c \<in> set ds. pk (fst c) \<notin> pk ` set (People_object s))"
    using replaced(4) new by simp
  moreover have "PeopleToFriend s' = PeopleToFriend s"
    using replaced(6) rows0 by simp
  ultimately show ?thesis by blast
next
  case (created cur fds tgs frs s0)
  note ce = candidate_effect [OF created(1)]
  from ce have rows0: "People_object s0 = People_object s" "PeopleToFriend s0 = PeopleToFriend s" by auto
  have rows': "People_object s' = People_object s @ [People.truncate cur]"
    using created(5) rows0 by simp
  have new: "pk cur \<notin> pk ` set (People_object s)" using created(4) rows0 by simp
  have pks: "\<And>c. c \<in> set cs \<Longrightarrow> pk (fst c) \<in> pk ` set (People_object s)"
  proof -
    fix c assume "c \<in> set cs"
    with assms(1) obtain r' where "r' \<in> set (People_object s)" "stable (People.truncate (fst c)) = stable r'"
      by (auto simp: recorded_ok_def)
    then show "pk (fst c) \<in> pk ` set (People_object s)"
      using stable_eq_fields(1) [of "People.truncate (fst c)" r'] by auto
  qed
  have "recorded_ok s' cs'"
    using assms(1) created(3) rows' new pks by (auto simp: recorded_ok_def)
  moreover have "\<exists>new. map stable (People_object s') = map stable (People_object s) @ new"
    using rows' by simp
  moreover have "\<exists>ds. cs' = cs @ ds \<and> (\<forall>c \<in> set ds. pk (fst c) \<notin> pk ` set (People_object s))"
    using created(3) new by simp
  moreover have "PeopleToFriend s' = PeopleToFriend s"
    using created(5) rows0 by simp
  ultimately show ?thesis by blast
qed

lemma map_pk_stable: "map pk rows = map pk (map stable rows)"
  by simp

lemma stable_image: "stable ` set rows = set (map stable rows)"
  by simp

lemma recorded_ok_cong:
  assumes "map stable (People_object s') = map stable (People_object s)"
  shows "recorded_ok s' cs = recorded_ok s cs"
  unfolding recorded_ok_def map_pk_stable [of "People_object s'"] map_pk_stable [of "People_object s"]
    stable_image assms ..

lemma pk_subset_stable:
  assumes "map stable xs = map stable ys @ new"
  shows "pk ` set ys \<subseteq> pk ` set xs"
proof
  fix k assume "k \<in> pk ` set ys"
  then obtain y where y: "y \<in> set ys" "k = pk y" by auto
  then have "stable y \<in> set (map stable xs)" using assms by simp
  then obtain x where "x \<in> set xs" "stable x = stable y" by auto
  with y show "k \<in> pk ` set xs"
    using stable_eq_fields(1) [of x y] by (metis image_eqI)
qed

lemma reconcile_loop_inv:
  assumes "recorded_ok s cs" and "for_each (reconcile L) people cs s = (Inr cs', s')"
  shows "recorded_ok s' cs'
       \<and> (\<exists>new. map stable (People_object s') = map stable (People_object s) @ new)
       \<and> (\<exists>ds. cs' = cs @ ds \<and> (\<forall>c \<in> set ds. pk (fst c) \<notin> pk ` set (People_object s)))
       \<and> PeopleToFriend s' = PeopleToFriend s"
  using assms
proof (induction people arbitrary: cs s)
  case Nil
  then show ?case by (simp add: for_each.simps)
next
  case (Cons p people)
  from Cons.prems(2) obtain ca sa where
    st: "reconcile L p cs s = (Inr ca, sa)" and
    rest: "for_each (reconcile L) people ca sa = (Inr cs', s')"
    by (auto simp: for_each.simps split: prod.splits sum.splits)
  from reconcile_inv [OF Cons.prems(1) st] obtain new1 ds1 where
    a: "recorded_ok sa ca" "map stable (People_object sa) = map stable (People_object s) @ new1"
       "ca = cs @ ds1" "\<forall>c \<in> set ds1. pk (fst c) \<notin> pk ` set (People_object s)"
       "PeopleToFriend sa = PeopleToFriend s"
    by blast
  from Cons.IH [OF a(1) rest] obtain new2 ds2 where
    b: "recorded_ok s' cs'" "map stable (People_object s') = map stable (People_object sa) @ new2"
       "cs' = ca @ ds2" "\<forall>c \<in> set ds2. pk (fst c) \<notin> pk ` set (People_object sa)"
       "PeopleToFriend s' = PeopleToFriend sa"
    by blast
  from pk_subset_stable [OF a(2)] b(4)
  have "\<forall>c \<in> set ds2. pk (fst c) \<notin> pk ` set (People_object s)" by blast
  with a b have "cs' = cs @ (ds1 @ ds2) \<and> (\<forall>c \<in> set (ds1 @ ds2). pk (fst c) \<notin> pk ` set (People_object s))"
    by auto
  moreover from a b have "map stable (People_object s') = map stable (People_object s) @ (new1 @ new2)"
    by simp
  ultimately show ?case using b(1,5) a(5) by (intro conjI exI) auto
qed

lemma link_friends_effect:
  assumes "link_friends (person, friends) u s = (Inr u', s')"
  shows "s' = s\<lparr>PeopleToFriend := related_set (pk person)
                   (map pk (People_active_filter s (\<lambda>r. guid r \<in> set friends))) (PeopleToFriend s),
                 People_object := upsert pk (People.truncate person) (People_object s),
                 writes := writes s + 2\<rparr>"
proof -
  from assms obtain s1 where
    a: "friends_set person (map pk (People_active_filter s (\<lambda>r. guid r \<in> set friends))) s = (Inr (), s1)" and
    b: "People_save False person s1 = (Inr (), s')"
    by (auto simp: link_friends_def then_do_Inr_iff)
  from a have "s1 = s\<lparr>PeopleToFriend := related_set (pk person)
                   (map pk (People_active_filter s (\<lambda>r. guid r \<in> set friends))) (PeopleToFriend s),
                 writes := writes s + 1\<rparr>"
    by (simp add: friends_set_def)
  with People_save_update [OF b] show ?thesis by simp
qed

lemma set_People_active_filter [simp]:
  "set (People_active_filter s P) = {r \<in> set (People_object s). is_active r \<and> P r}"
  by (auto simp: People_active_filter_def)

lemma rel_all_rel_set_same [simp]: "set (related_all p (related_set p ids rel)) = set ids"
  by (auto simp: related_all_def related_set_def image_iff)

lemma rel_all_rel_set_other [simp]: "q \<noteq> p \<Longrightarrow> related_all q (related_set p ids rel) = related_all q rel"
proof -
  assume "q \<noteq> p"
  then have "filter (\<lambda>r. fst r = q) (filter (\<lambda>r. fst r \<noteq> p \<or> snd r \<in> set ids) rel)
      = filter (\<lambda>r. fst r = q) rel"
    by (induction rel) auto
  moreover from \<open>q \<noteq> p\<close> have "filter (\<lambda>r. fst r = q) (map (Pair p) xs) = []" for xs :: "nat list"
    by (induction xs) auto
  ultimately show ?thesis by (simp add: related_all_def related_set_def)
qed

lemma active_ids_stable:
  assumes "map stable xs = map stable ys"
  shows "pk ` {r \<in> set xs. is_active r \<and> guid r \<in> G} = pk ` {r \<in> set ys. is_active r \<and> guid r \<in> G}"
proof -
  have "pk ` {r \<in> set rows. is_active r \<and> guid r \<in> G}
      = pk ` {r \<in> set (map stable rows). is_active r \<and> guid r \<in> G}" for rows
  proof (intro set_eqI iffI)
    fix k assume "k \<in> pk ` {r \<in> set rows. is_active r \<and> guid r \<in> G}"
    then obtain r where "r \<in> set rows" "is_active r" "guid r \<in> G" "k = pk r" by auto
    then have "stable r \<in> {r \<in> set (map stable rows). is_active r \<and> guid r \<in> G}" "k = pk (stable r)"
      by auto
    then show "k \<in> pk ` {r \<in> set (map stable rows). is_active r \<and> guid r \<in> G}"
      by (rule rev_image_eqI)
  next
    fix k assume "k \<in> pk ` {r \<in> set (map stable rows). is_active r \<and> guid r \<in> G}"
    then obtain r where "r \<in> set rows" "is_active (stable r)" "guid (stable r) \<in> G" "k = pk (stable r)"
      by auto
    then have "r \<in> {r \<in> set rows. is_active r \<and> guid r \<in> G}" "k = pk r"
      by auto
    then show "k \<in> pk ` {r \<in> set rows. is_active r \<and> guid r \<in> G}"
      by (rule rev_image_eqI)
  qed
  from this [of xs] this [of ys] assms show ?thesis by simp
qed

lemma link_loop:
  assumes "recorded_ok s all" and "set cs \<subseteq> set all" and "distinct (map (\<lambda>c. pk (fst c)) cs)"
    and "for_each link_friends cs () s = (Inr u, s')"
  shows "map stable (People_object s') = map stable (People_object s)
       \<and> (\<forall>c \<in> set cs. set (related_all (pk (fst c)) (PeopleToFriend s'))
             = pk ` {r \<in> set (People_object s). is_active r \<and> guid r \<in> set (snd c)})
       \<and> (\<forall>q. q \<notin> (\<lambda>c. pk (fst c)) ` set cs \<longrightarrow> related_all q (PeopleToFriend s') = related_all q (PeopleToFriend s))"
  using assms
proof (induction cs arbitrary: s)
  case Nil
  then show ?case by (simp add: for_each.simps)
next
  case (Cons c cs)
  obtain person friends where c: "c = (person, friends)" by (cases c)
  from Cons.prems(4) c obtain sa where
    st: "link_friends (person, friends) () s = (Inr (), sa)" and
    rest: "for_each link_friends cs () sa = (Inr u, s')"
    by (auto simp: for_each.simps split: prod.splits sum.splits)
  from link_friends_effect [OF st] have
    ptf: "PeopleToFriend sa = related_set (pk person)
            (map pk (People_active_filter s (\<lambda>r. guid r \<in> set friends))) (PeopleToFriend s)" and
    rows: "People_object sa = upsert pk (People.truncate person) (People_object s)"
    by simp_all
  from Cons.prems(1,2) c have mem: "stable (People.truncate person) \<in> stable ` set (People_object s)"
    by (auto simp: recorded_ok_def)
  from Cons.prems(1) have d: "distinct (map pk (People_object s))" by (simp add: recorded_ok_def)
  from rows upsert_stable [OF d mem]
  have same: "map stable (People_object sa) = map stable (People_object s)" by simp
  from Cons.prems(1) recorded_ok_cong [OF same] have ok: "recorded_ok sa all" by simp
  from Cons.prems(2,3) have "set cs \<subseteq> set all" "distinct (map (\<lambda>c. pk (fst c)) cs)" by auto
  from Cons.IH [OF ok this rest] have ih:
    "map stable (People_object s') = map stable (People_object sa)"
    "\<forall>c \<in> set cs. set (related_all (pk (fst c)) (PeopleToFriend s'))
             = pk ` {r \<in> set (People_object sa). is_active r \<and> guid r \<in> set (snd c)}"
    "\<forall>q. q \<notin> (\<lambda>c. pk (fst c)) ` set cs \<longrightarrow> related_all q (PeopleToFriend s') = related_all q (PeopleToFriend sa)"
    by blast+
  from Cons.prems(3) c have fresh: "pk person \<notin> (\<lambda>c. pk (fst c)) ` set cs" by auto
  with ih(3) have "related_all (pk person) (PeopleToFriend s') = related_all (pk person) (PeopleToFriend sa)"
    by blast
  then have here: "set (related_all (pk person) (PeopleToFriend s'))
      = pk ` {r \<in> set (People_object s). is_active r \<and> guid r \<in> set friends}"
    by (simp add: ptf)
  have others: "\<forall>c \<in> set cs. set (related_all (pk (fst c)) (PeopleToFriend s'))
             = pk ` {r \<in> set (People_object s). is_active r \<and> guid r \<in> set (snd c)}"
  proof
    fix c' assume "c' \<in> set cs"
    with ih(2) have "set (related_all (pk (fst c')) (PeopleToFriend s'))
             = pk ` {r \<in> set (People_object sa). is_active r \<and> guid r \<in> set (snd c')}"
      by blast
    also have "\<dots> = pk ` {r \<in> set (People_object s). is_active r \<and> guid r \<in> set (snd c')}"
      by (rule active_ids_stable [OF same])
    finally show "set (related_all (pk (fst c')) (PeopleToFriend s'))
             = pk ` {r \<in> set (People_object s). is_active r \<and> guid r \<in> set (snd c')}" .
  qed
  have frame: "\<forall>q. q \<notin> (\<lambda>c. pk (fst c)) ` set (c # cs) \<longrightarrow> related_all q (PeopleToFriend s') = related_all q (PeopleToFriend s)"
  proof (intro allI impI)
    fix q assume q: "q \<notin> (\<lambda>c. pk (fst c)) ` set (c # cs)"
    then have "q \<noteq> pk person" "q \<notin> (\<lambda>c. pk (fst c)) ` set cs" using c by auto
    with ih(3) have "related_all q (PeopleToFriend s') = related_all q (PeopleToFriend sa)" by blast
    also from \<open>q \<noteq> pk person\<close> have "\<dots> = related_all q (PeopleToFriend s)"
      by (simp add: ptf)
    finally show "related_all q (PeopleToFriend s') = related_all q (PeopleToFriend s)" .
  qed
  from ih(1) same have "map stable (People_object s') = map stable (People_object s)" by simp
  moreover from here others c have "\<forall>c \<in> set (c # cs). set (related_all (pk (fst c)) (PeopleToFriend s'))
             = pk ` {r \<in> set (People_object s). is_active r \<and> guid r \<in> set (snd c)}"
    by simp
  ultimately show ?case using frame by blast
qed

text \<open>
  A record that the comparison finds equal to the first active row of its identifier
  leaves every table as it is; only a key and two readings of the clock were used for
  the instance that is dropped.
\<close>

lemma unchanged_record_untouched:
  assumes "candidate L p s = (Inr (cur, fds, tgs, frs), s0)"
    and "People_active_filter s0 (\<lambda>r. guid r = guid cur) = r # others"
    and "unchanged s0 cur (instance_of r) fds tgs frs"
  shows "reconcile L p cs s = (Inr cs, s\<lparr>uuid4_next := uuid4_next s + 1, clock := clock s + 2\<rparr>)"
  using assms candidate_effect [OF assms(1)]
  by (simp add: reconcile_def then_do_def bind_result_def)

section \<open>The friends of a recorded individual\<close>

text \<open>
  What the third pass does with a recorded pair, when the keys of the table are
  distinct: \<^verbatim>\<open>set\<close> replaces the friends of the recorded individual by the rows
  whose flag \<^verbatim>\<open>is_active\<close> is set and that carry one of the external identifiers of
  the pair, whatever the relation held before.
\<close>

lemma friends_set_to_flagged_rows:
  assumes "distinct (map pk (People_object s))"
    and "reconcile_all L people s = (Inr person_friends_combos, s2)"
    and "link_all person_friends_combos s2 = (Inr (), s3)"
    and "(person, friends) \<in> set person_friends_combos"
  shows "set (related_all (pk person) (PeopleToFriend s3))
           = pk ` {r \<in> set (People_object s3). is_active r \<and> guid r \<in> set friends}"
proof -
  from assms(1) have "recorded_ok s []" by (simp add: recorded_ok_def)
  from reconcile_loop_inv [OF this assms(2) [unfolded reconcile_all_def]]
  have ok: "recorded_ok s2 person_friends_combos" by blast
  then have d: "distinct (map (\<lambda>c. pk (fst c)) person_friends_combos)" by (simp add: recorded_ok_def)
  from link_loop [OF ok subset_refl d assms(3) [unfolded link_all_def]] assms(4)
  have "map stable (People_object s3) = map stable (People_object s2)"
    "set (related_all (pk person) (PeopleToFriend s3))
       = pk ` {r \<in> set (People_object s2). is_active r \<and> guid r \<in> set friends}"
    by force+
  with active_ids_stable [of "People_object s3" "People_object s2"] show ?thesis by simp
qed

text \<open>
  C7. The code does not give A the current identity of B alone. In \<open>db1\<close> the friends
  of A are B and C. The file \<open>people6\<close> lists B as the only friend of A, and renames B.
  The run replaces A and B, and the rows it replaces stay active (the assignment to
  \<^verbatim>\<open>active\<close> does not reach the field \<^verbatim>\<open>is_active\<close>). So the query of the
  third pass finds two rows with B's external identifier, and the new version of A
  (key 12) gets both as its friends: B's superseded row (key 9) and B's new row
  (key 13). The former row of A (key 8), still active, keeps B and C.
\<close>

theorem friends_include_superseded_row:
  "ingest_data companies1 people6 db1 = (Inr (), db6)
   \<and> map j_friends (json_load people1) = [[1, 2], [], []]
   \<and> map j_friends (json_load people6) = [[1], [], []]
   \<and> map (\<lambda>r. (pk r, guid r, name r)) (filter is_active (People_object db6))
        = [(8, 10, ''A''), (9, 11, ''B''), (10, 12, ''C''), (12, 10, ''A''), (13, 11, ''Bb'')]
   \<and> length (People_object db6) = 5
   \<and> related_all 12 (PeopleToFriend db6) = [9, 13]
   \<and> related_all 8 (PeopleToFriend db6) = [9, 10]"
  using run6
  by (simp add: related_all_def db6_def db1_def people1_def people6_def
      person_a_def person_b_def person_c_def row_a_def row_b_def row_c_def)

section \<open>What a run leaves alone\<close>

lemma preservesI: "(\<And>s r s'. P s \<Longrightarrow> m s = (r, s') \<Longrightarrow> P s') \<Longrightarrow> preserves P m"
  by (auto simp: preserves_def)

lemma preservesD: "preserves P m \<Longrightarrow> P s \<Longrightarrow> m s = (r, s') \<Longrightarrow> P s'"
  by (auto simp: preserves_def)

lemma preserves_then_do:
  assumes "preserves P m" and "\<And>a. preserves P (f a)"
  shows "preserves P (then_do m f)"
proof (rule preservesI)
  fix s r s' assume P: "P s" and run: "then_do m f s = (r, s')"
  obtain r1 s1 where m: "m s = (r1, s1)" by (cases "m s")
  with assms(1) P have P1: "P s1" by (rule preservesD)
  show "P s'"
  proof (cases r1)
    case (Inl e)
    with m run have "s' = s1" by (simp add: then_do_def bind_result_def)
    with P1 show ?thesis by simp
  next
    case (Inr a)
    with m run have "f a s1 = (r, s')" by (simp add: then_do_def bind_result_def)
    with assms(2) P1 show ?thesis by (rule preservesD)
  qed
qed

lemma preserves_for_each:
  assumes "\<And>x acc. x \<in> set xs \<Longrightarrow> preserves P (f x acc)"
  shows "preserves P (for_each f xs acc)"
  using assms
proof (induction xs arbitrary: acc)
  case Nil
  show ?case by (rule preservesI) (simp add: for_each.simps)
next
  case (Cons x xs)
  have step: "preserves P (f x acc)" by (rule Cons.prems) simp
  have rest: "preserves P (for_each f xs acc')" for acc'
    by (rule Cons.IH) (simp add: Cons.prems)
  show ?case
  proof (rule preservesI)
    fix s r s' assume P: "P s" and run: "for_each f (x # xs) acc s = (r, s')"
    obtain r1 s1 where m: "f x acc s = (r1, s1)" by (cases "f x acc s")
    with step P have P1: "P s1" by (rule preservesD)
    show "P s'"
    proof (cases r1)
      case (Inl e)
      with m run have "s' = s1" by (simp add: for_each.simps)
      with P1 show ?thesis by simp
    next
      case (Inr a)
      with m run have "for_each f xs a s1 = (r, s')" by (simp add: for_each.simps)
      with rest P1 show ?thesis by (rule preservesD)
    qed
  qed
qed

lemma preserves_pure [simp]:
  "preserves P (ret a)" "preserves P (lift x)"
  by (auto simp: preserves_def ret_def lift_def)

lemma preserves_if:
  "preserves P m \<Longrightarrow> preserves P m' \<Longrightarrow> preserves P (if b then m else m')"
  by simp

lemma other_tables_objects_update [simp]:
  "People_object (objects_update m rows s) = People_object s"
  "PeopleToFriend (objects_update m rows s) = PeopleToFriend s"
  "Company_objects (objects_update m rows s) = Company_objects s"
  by (cases m; simp)+

lemma only_dims_refl [simp]: "only_dims s s"
  by (simp add: only_dims_def)

lemma only_dims_tables:
  assumes "only_dims s t"
  shows "People_object t = People_object s" "PeopleToFriend t = PeopleToFriend s"
    "Company_objects t = Company_objects s" "People_tags t = People_tags s"
    "PeopleToFood t = PeopleToFood s" "IngestedFiles_objects t = IngestedFiles_objects s"
    "clock t = clock s"
proof -
  let ?t = "t\<lparr>Food_objects := Food_objects s, Tag_objects := Tag_objects s,
       Gender_objects := Gender_objects s, EyeColor_objects := EyeColor_objects s,
       writes := writes s, uuid4_next := uuid4_next s\<rparr>"
  from assms have e: "?t = s" by (simp add: only_dims_def)
  have "People_object ?t = People_object t" "PeopleToFriend ?t = PeopleToFriend t"
    "Company_objects ?t = Company_objects t" "People_tags ?t = People_tags t"
    "PeopleToFood ?t = PeopleToFood t" "IngestedFiles_objects ?t = IngestedFiles_objects t"
    "clock ?t = clock t"
    by simp_all
  with e show "People_object t = People_object s" "PeopleToFriend t = PeopleToFriend s"
    "Company_objects t = Company_objects s" "People_tags t = People_tags s"
    "PeopleToFood t = PeopleToFood s" "IngestedFiles_objects t = IngestedFiles_objects s"
    "clock t = clock s"
    by simp_all
qed

lemma dims_uuid4: "preserves (only_dims s0) uuid4"
  by (auto simp: preserves_def only_dims_def uuid4_def)

lemma dims_entity_save: "preserves (only_dims s0) (entity_save adding m e)"
proof (rule preservesI)
  fix s r s' assume P: "only_dims s0 s" and run: "entity_save adding m e s = (r, s')"
  show "only_dims s0 s'"
  proof (cases "save_row adding ent_pk (classify m e) (objects s m)")
    case (Inl err)
    with run P show ?thesis by (simp add: entity_save_def Let_def)
  next
    case (Inr rows)
    with run have "s' = (objects_update m rows s)\<lparr>writes := writes s + 1\<rparr>"
      by (simp add: entity_save_def Let_def)
    with P show ?thesis by (cases m) (simp_all add: only_dims_def)
  qed
qed

lemma dims_get_or_create: "preserves (only_dims s0) (get_or_create m v)"
proof -
  have a: "preserves (only_dims s0) (then_do uuid4 (\<lambda>i.
                then_do (entity_save True m \<lparr>ent_pk = i, ent_key = v,
                           food_type = (if m = Food then Some UNCLASSIFIED else None)\<rparr>)
                  (\<lambda>obj. ret (obj, True))))"
    by (intro preserves_then_do dims_uuid4 dims_entity_save preserves_pure)
  show ?thesis
  proof (rule preservesI)
    fix s r s' assume "only_dims s0 s" "get_or_create m v s = (r, s')"
    with preservesD [OF a] show "only_dims s0 s'"
      by (auto simp: get_or_create_def split: list.splits)
  qed
qed

lemma dims_create_lookup: "preserves (only_dims s0) (create_lookup m vs e)"
  unfolding create_lookup_def
proof (rule preserves_for_each)
  fix v L
  show "preserves (only_dims s0) (create_lookup_step m v L)"
    unfolding create_lookup_step_def
  proof (intro preserves_if preserves_then_do dims_get_or_create preserves_pure)
    fix a :: "entity \<times> bool"
    obtain this_item created where a: "a = (this_item, created)" by (cases a)
    have "preserves (only_dims s0)
        (then_do (if created then entity_save False m this_item else ret this_item)
          (\<lambda>this_item. ret (L(v \<mapsto> this_item))))"
      by (intro preserves_then_do preserves_if dims_entity_save preserves_pure)
    with a show "preserves (only_dims s0)
        (case a of (this_item, created) \<Rightarrow>
          then_do (if created then entity_save False m this_item else ret this_item)
            (\<lambda>this_item. ret (L(v \<mapsto> this_item))))"
      by simp
  qed
qed

lemma frame_uuid4: "preserves (people_frame old F C) uuid4"
  by (auto simp: preserves_def people_frame_def uuid4_def)

lemma frame_now: "preserves (people_frame old F C) now"
  by (auto simp: preserves_def people_frame_def now_def)

lemma frame_People_save: "preserves (people_frame old F C) (People_save adding p)"
  by (auto simp: preserves_def people_frame_def People_save_def save_row_def
      split: if_splits sum.splits)

lemma frame_tags_set: "preserves (people_frame old F C) (tags_set p ids)"
  by (auto simp: preserves_def people_frame_def tags_set_def)

lemma frame_favourite_food_set: "preserves (people_frame old F C) (favourite_food_set p ids)"
  by (auto simp: preserves_def people_frame_def favourite_food_set_def)

lemma frame_persist: "preserves (people_frame old F C) (persist cur fds tgs frs cs)"
  unfolding persist_def
  by (intro preserves_then_do frame_People_save frame_tags_set frame_favourite_food_set preserves_pure)

lemma frame_candidate: "preserves (people_frame old F C) (candidate L p)"
  unfolding candidate_def
  by (intro preserves_then_do frame_uuid4 frame_now preserves_pure)

lemma frame_reconcile: "preserves (people_frame old F C) (reconcile L p cs)"
  unfolding reconcile_def
proof (rule preserves_then_do [OF frame_candidate])
  fix a :: "People_instance \<times> nat list \<times> nat list \<times> nat list"
  obtain cur fds tgs frs where a: "a = (cur, fds, tgs, frs)" by (cases a)
  have stamp: "preserves (people_frame old F C) (then_do now (\<lambda>t.
                    then_do (People_save False (existing_person\<lparr>updated_at := t, active := Some False\<rparr>)) (\<lambda>_.
                      persist cur fds tgs frs cs)))" for existing_person
    by (intro preserves_then_do frame_now frame_People_save frame_persist)
  show "preserves (people_frame old F C)
     (case a of (current_person, current_persons_foods, current_persons_tags, current_persons_friends) \<Rightarrow> \<lambda>s.
          case People_active_filter s (\<lambda>r. guid r = guid current_person) of
            [] \<Rightarrow> persist current_person current_persons_foods current_persons_tags
                    current_persons_friends cs s
          | r # _ \<Rightarrow>
              (let existing_person = instance_of r in
               if \<not> unchanged s current_person existing_person current_persons_foods
                      current_persons_tags current_persons_friends
               then then_do now (\<lambda>t.
                    then_do (People_save False (existing_person\<lparr>updated_at := t, active := Some False\<rparr>)) (\<lambda>_.
                      persist current_person current_persons_foods current_persons_tags
                        current_persons_friends cs)) s
               else (Inr cs, s)))"
  proof (rule preservesI)
    fix s r s'
    assume P: "people_frame old F C s" and run: "(case a of (current_person, current_persons_foods, current_persons_tags, current_persons_friends) \<Rightarrow> \<lambda>s.
          case People_active_filter s (\<lambda>r. guid r = guid current_person) of
            [] \<Rightarrow> persist current_person current_persons_foods current_persons_tags
                    current_persons_friends cs s
          | r # _ \<Rightarrow>
              (let existing_person = instance_of r in
               if \<not> unchanged s current_person existing_person current_persons_foods
                      current_persons_tags current_persons_friends
               then then_do now (\<lambda>t.
                    then_do (People_save False (existing_person\<lparr>updated_at := t, active := Some False\<rparr>)) (\<lambda>_.
                      persist current_person current_persons_foods current_persons_tags
                        current_persons_friends cs)) s
               else (Inr cs, s))) s = (r, s')"
    show "people_frame old F C s'"
    proof (cases "People_active_filter s (\<lambda>r. guid r = guid cur)")
      case Nil
      with run a have "persist cur fds tgs frs cs s = (r, s')" by simp
      with frame_persist P show ?thesis by (rule preservesD)
    next
      case (Cons x xs)
      show ?thesis
      proof (cases "unchanged s cur (instance_of x) fds tgs frs")
        case True
        with run a Cons have "s' = s" by simp
        with P show ?thesis by simp
      next
        case False
        with run a Cons have "then_do now (\<lambda>t.
                    then_do (People_save False ((instance_of x)\<lparr>updated_at := t, active := Some False\<rparr>)) (\<lambda>_.
                      persist cur fds tgs frs cs)) s = (r, s')" by simp
        with stamp P show ?thesis by (rule preservesD)
      qed
    qed
  qed
qed

lemma people_frame_refl:
  "people_frame (pk ` set (People_object s)) (PeopleToFriend s) (Company_objects s) s"
  by (simp add: people_frame_def)

lemma reconcile_new_keys:
  assumes "for_each (reconcile L) people cs s = (Inr cs', s')"
  shows "\<exists>ds. cs' = cs @ ds \<and> (\<forall>c \<in> set ds. pk (fst c) \<notin> pk ` set (People_object s))"
  using assms
proof (induction people arbitrary: cs s)
  case Nil
  then show ?case by (simp add: for_each.simps)
next
  case (Cons p people)
  from Cons.prems obtain ca sa where
    st: "reconcile L p cs s = (Inr ca, sa)" and
    rest: "for_each (reconcile L) people ca sa = (Inr cs', s')"
    by (auto simp: for_each.simps split: prod.splits sum.splits)
  from preservesD [OF frame_reconcile people_frame_refl st]
  have sub: "pk ` set (People_object s) \<subseteq> pk ` set (People_object sa)"
    by (simp add: people_frame_def)
  from st have "\<exists>ds. ca = cs @ ds \<and> (\<forall>c \<in> set ds. pk (fst c) \<notin> pk ` set (People_object s))"
  proof (cases rule: reconcile_cases)
    case (same cur fds tgs frs s0 r rest)
    then show ?thesis by simp
  next
    case (replaced cur fds tgs frs s0 r rest)
    with candidate_effect [OF replaced(1)] show ?thesis by simp
  next
    case (created cur fds tgs frs s0)
    with candidate_effect [OF created(1)] show ?thesis by simp
  qed
  then obtain ds1 where a: "ca = cs @ ds1" "\<forall>c \<in> set ds1. pk (fst c) \<notin> pk ` set (People_object s)"
    by blast
  from Cons.IH [OF rest] obtain ds2 where
    b: "cs' = ca @ ds2" "\<forall>c \<in> set ds2. pk (fst c) \<notin> pk ` set (People_object sa)"
    by blast
  from b(2) sub have "\<forall>c \<in> set ds2. pk (fst c) \<notin> pk ` set (People_object s)"
    by blast
  with a b have "cs' = cs @ (ds1 @ ds2) \<and> (\<forall>c \<in> set (ds1 @ ds2). pk (fst c) \<notin> pk ` set (People_object s))"
    by auto
  then show ?case by blast
qed

lemma frame_link_friends:
  assumes "pk (fst c) \<notin> old"
  shows "preserves (friends_frame old X C) (link_friends c u)"
proof (rule preservesI)
  fix s r s' assume P: "friends_frame old X C s" and run: "link_friends c u s = (r, s')"
  obtain person friends where c: "c = (person, friends)" by (cases c)
  let ?s1 = "s\<lparr>PeopleToFriend := related_set (pk person)
                   (map pk (People_active_filter s (\<lambda>r. guid r \<in> set friends))) (PeopleToFriend s),
                 writes := writes s + 1\<rparr>"
  have "related_all q (related_set (pk person) ids (PeopleToFriend s)) = related_all q (PeopleToFriend s)"
    if "q \<in> old" for q ids
    using that assms c by (intro rel_all_rel_set_other) auto
  with P have P1: "friends_frame old X C ?s1"
    by (simp add: friends_frame_def)
  from run c have "People_save False person ?s1 = (r, s')"
    by (simp add: link_friends_def then_do_def friends_set_def bind_result_def)
  then have "PeopleToFriend s' = PeopleToFriend ?s1" "Company_objects s' = Company_objects ?s1"
    "pk ` set (People_object ?s1) \<subseteq> pk ` set (People_object s')"
    by (auto simp: People_save_def save_row_def split: if_splits)
  with P1 show "friends_frame old X C s'"
    unfolding friends_frame_def by (metis subset_trans)
qed

lemma frame_ingest_people:
  "preserves (friends_frame (pk ` set (People_object s)) (\<lambda>q. related_all q (PeopleToFriend s))
                (Company_objects s))
     (ingest_people people company_lookup0)"
proof -
  let ?old = "pk ` set (People_object s)"
  let ?B = "friends_frame ?old (\<lambda>q. related_all q (PeopleToFriend s)) (Company_objects s)"
  have last: "preserves ?B (then_do (reconcile_all L people) link_all)" for L
  proof (rule preservesI)
    fix t r t' assume B: "?B t" and run: "then_do (reconcile_all L people) link_all t = (r, t')"
    obtain r1 t1 where m: "reconcile_all L people t = (r1, t1)" by (cases "reconcile_all L people t")
    let ?At = "people_frame (pk ` set (People_object t)) (PeopleToFriend t) (Company_objects t)"
    have "preserves ?At (reconcile_all L people)"
      unfolding reconcile_all_def by (intro preserves_for_each frame_reconcile)
    from preservesD [OF this people_frame_refl m]
    have t1: "PeopleToFriend t1 = PeopleToFriend t" "pk ` set (People_object t) \<subseteq> pk ` set (People_object t1)"
      "Company_objects t1 = Company_objects t"
      by (simp_all add: people_frame_def)
    with B have B1: "?B t1" unfolding friends_frame_def by (metis subset_trans)
    show "?B t'"
    proof (cases r1)
      case (Inl e)
      with m run have "t' = t1" by (simp add: then_do_def bind_result_def)
      with B1 show ?thesis by simp
    next
      case (Inr cs)
      with m run have l: "link_all cs t1 = (r, t')" by (simp add: then_do_def bind_result_def)
      from m Inr reconcile_new_keys [of L people "[]" t cs t1]
      have "\<forall>c \<in> set cs. pk (fst c) \<notin> pk ` set (People_object t)"
        by (simp add: reconcile_all_def)
      moreover from B have "?old \<subseteq> pk ` set (People_object t)"
        by (simp add: friends_frame_def)
      ultimately have "\<forall>c \<in> set cs. pk (fst c) \<notin> ?old"
        by blast
      then have "preserves ?B (link_all cs)"
        unfolding link_all_def by (intro preserves_for_each frame_link_friends) simp
      from preservesD [OF this B1 l] show ?thesis .
    qed
  qed
  have lk: "preserves ?B (create_lookup m vs e)" for m vs e
  proof (rule preservesI)
    fix t r t' assume B: "?B t" and run: "create_lookup m vs e t = (r, t')"
    from preservesD [OF dims_create_lookup only_dims_refl run]
    have "only_dims t t'" .
    from only_dims_tables [OF this] B show "?B t'" by (simp add: friends_frame_def)
  qed
  show ?thesis
    unfolding ingest_people_def
    by (intro preserves_then_do preserves_pure lk last)
qed

lemma friends_frame_refl:
  "friends_frame (pk ` set (People_object s)) (\<lambda>q. related_all q (PeopleToFriend s)) (Company_objects s) s"
  by (simp add: friends_frame_def)

text \<open>
  Whatever the outcome of \<^verbatim>\<open>ingest_people\<close>, a row that was in the table before the
  run keeps the friends it had: only rows created by the run have their friends written.
  If the friends in the table were rows of the table, the friends of such a row are
  therefore rows from before the run, never the new version of a friend that the run has
  replaced.
\<close>

lemma old_rows_keep_friends:
  assumes "ingest_people people company_lookup0 s = (res, s')"
    and "q \<in> pk ` set (People_object s)"
    and "snd ` set (PeopleToFriend s) \<subseteq> pk ` set (People_object s)"
  shows "related_all q (PeopleToFriend s') = related_all q (PeopleToFriend s)
       \<and> set (related_all q (PeopleToFriend s')) \<subseteq> pk ` set (People_object s)"
proof -
  from preservesD [OF frame_ingest_people friends_frame_refl assms(1)] assms(2)
  have eq: "related_all q (PeopleToFriend s') = related_all q (PeopleToFriend s)"
    unfolding friends_frame_def by blast
  moreover have "set (related_all q (PeopleToFriend s)) \<subseteq> pk ` set (People_object s)"
    using assms(3) by (auto simp: related_all_def)
  ultimately show ?thesis by simp
qed

text \<open>
  C10. The code does not make the superseded row inactive. The file \<open>people2\<close> renames
  B and leaves A as it was in \<open>db1\<close>. After the run the row of A, judged unchanged, is
  the same row with the same friends, the rows of B and C from before the run, and B
  has a new row (key 13), as the claim says. But the row of B that A still refers to
  (key 9), which the run has replaced, still has \<^verbatim>\<open>is_active\<close> set: the assignment
  to \<^verbatim>\<open>active\<close> does not reach the field.
\<close>

theorem superseded_friend_stays_active:
  "ingest_data companies1 people2 db1 = (Inr (), db2)
   \<and> row_a \<in> set (People_object db1) \<and> row_a \<in> set (People_object db2)
   \<and> related_all (pk row_a) (PeopleToFriend db1) = [pk row_b, pk row_c]
   \<and> related_all (pk row_a) (PeopleToFriend db2) = [pk row_b, pk row_c]
   \<and> People_object db2 ! 1 = row_b\<lparr>updated_at := 11\<rparr>
   \<and> is_active (People_object db2 ! 1)
   \<and> People_object db2 ! 3 = row_b\<lparr>pk := 13, name := ''Bb'', created_at := 9, updated_at := 10\<rparr>
   \<and> is_active (People_object db2 ! 3)"
  using run2 by (simp add: related_all_def db2_def db1_def row_a_def row_b_def row_c_def)

section \<open>The organization of an individual\<close>

lemma name_lookup_fold:
  assumes "fold (\<lambda>company m. m(company_name company \<mapsto> company)) xs m0 n = Some o'"
    and "\<And>n o'. m0 n = Some o' \<Longrightarrow> company_name o' = n \<and> o' \<in> A"
    and "set xs \<subseteq> A"
  shows "company_name o' = n \<and> o' \<in> A"
  using assms
proof (induction xs arbitrary: m0)
  case Nil
  then show ?case by simp
next
  case (Cons x xs)
  show ?case
  proof (rule Cons.IH)
    show "fold (\<lambda>company m. m(company_name company \<mapsto> company)) xs (m0(company_name x \<mapsto> x)) n = Some o'"
      using Cons.prems(1) by (simp del: fun_upd_apply)
    show "company_name o'' = n' \<and> o'' \<in> A" if "(m0(company_name x \<mapsto> x)) n' = Some o''" for n' o''
      using that Cons.prems(2,3) by (auto split: if_splits)
    show "set xs \<subseteq> A" using Cons.prems(3) by simp
  qed
qed

lemma ingest_companies_step_effect:
  assumes "ingest_companies_step nl c il s = (Inr il', s')"
    and "\<And>n o'. nl n = Some o' \<Longrightarrow> company_name o' = n \<and> o' \<in> set (Company_objects s)"
  shows "(\<exists>o'. il' = il(c_index c \<mapsto> o') \<and> company_name o' = c_company c \<and> o' \<in> set (Company_objects s'))
       \<and> set (Company_objects s) \<subseteq> set (Company_objects s') \<and> People_object s' = People_object s"
proof (cases "nl (c_company c)")
  case None
  with assms(1) show ?thesis
    by (auto simp: ingest_companies_step_def then_do_Inr_iff ret_def uuid4_def Company_save_def
        save_row_def split: if_splits)
next
  case (Some a)
  with assms(1) have "il' = il(c_index c \<mapsto> a)" "s' = s"
    by (auto simp: ingest_companies_step_def then_do_Inr_iff ret_def)
  with assms(2) [OF Some] show ?thesis by auto
qed

lemma ingest_companies_loop:
  assumes "for_each (ingest_companies_step nl) cs il s = (Inr il', s')"
    and "\<And>n o'. nl n = Some o' \<Longrightarrow> company_name o' = n \<and> o' \<in> set (Company_objects s)"
    and "\<And>i o'. il i = Some o' \<Longrightarrow> (\<exists>c \<in> A. c_index c = i \<and> company_name o' = c_company c) \<and> o' \<in> set (Company_objects s)"
    and "set cs \<subseteq> A"
  shows "(\<forall>i o'. il' i = Some o' \<longrightarrow> (\<exists>c \<in> A. c_index c = i \<and> company_name o' = c_company c) \<and> o' \<in> set (Company_objects s'))
       \<and> People_object s' = People_object s"
  using assms
proof (induction cs arbitrary: il s)
  case Nil
  then show ?case by (auto simp: for_each.simps)
next
  case (Cons c cs)
  from Cons.prems(1) obtain ia sa where
    st: "ingest_companies_step nl c il s = (Inr ia, sa)" and
    rest: "for_each (ingest_companies_step nl) cs ia sa = (Inr il', s')"
    by (auto simp: for_each.simps split: prod.splits sum.splits)
  from ingest_companies_step_effect [OF st Cons.prems(2)] obtain o1 where
    e: "ia = il(c_index c \<mapsto> o1)" "company_name o1 = c_company c" "o1 \<in> set (Company_objects sa)"
       "set (Company_objects s) \<subseteq> set (Company_objects sa)" "People_object sa = People_object s"
    by blast
  have "(\<forall>i o'. il' i = Some o' \<longrightarrow> (\<exists>c \<in> A. c_index c = i \<and> company_name o' = c_company c) \<and> o' \<in> set (Company_objects s'))
       \<and> People_object s' = People_object sa"
  proof (rule Cons.IH [OF rest])
    show "company_name o' = n \<and> o' \<in> set (Company_objects sa)" if "nl n = Some o'" for n o'
      using Cons.prems(2) [OF that] e(4) by auto
    show "(\<exists>c \<in> A. c_index c = i \<and> company_name o' = c_company c) \<and> o' \<in> set (Company_objects sa)"
      if "ia i = Some o'" for i o'
    proof (cases "i = c_index c")
      case True
      with that e have "o' = o1" by simp
      with e True Cons.prems(4) show ?thesis by auto
    next
      case False
      with that e have "il i = Some o'" by simp
      from Cons.prems(3) [OF this] e(4) show ?thesis by auto
    qed
    show "set cs \<subseteq> A" using Cons.prems(4) by simp
  qed
  with e(5) show ?case by simp
qed

lemma ingest_companies_effect:
  assumes "ingest_companies cs s = (Inr L0, s')"
  shows "(\<forall>i o'. L0 i = Some o' \<longrightarrow> (\<exists>c \<in> set cs. c_index c = i \<and> company_name o' = c_company c) \<and> o' \<in> set (Company_objects s'))
       \<and> People_object s' = People_object s"
proof -
  let ?nl = "fold (\<lambda>company m. m(company_name company \<mapsto> company)) (Company_objects s) Map.empty"
  from assms have run: "for_each (ingest_companies_step ?nl) cs Map.empty s = (Inr L0, s')"
    by (auto simp: ingest_companies_def Let_def split: if_splits)
  show ?thesis
  proof (rule ingest_companies_loop [OF run])
    show "company_name o' = n \<and> o' \<in> set (Company_objects s)" if "?nl n = Some o'" for n o'
      using that by (rule name_lookup_fold) auto
  qed auto
qed

lemma instance_of_fields [simp]:
  "company_id (instance_of r) = company_id r" "guid (instance_of r) = guid r"
  "is_active (instance_of r) = is_active r" "pk (instance_of r) = pk r"
  by (simp_all add: instance_of_def People.extend_def)

lemma truncate_fields [simp]:
  "company_id (People.truncate i) = company_id i" "guid (People.truncate i) = guid i"
  "is_active (People.truncate i) = is_active i"
  by (simp_all add: People.truncate_def)

lemma reconcile_linked:
  assumes "reconcile L p cs s = (Inr cs', s')"
  shows "\<exists>c r. company_lookup L (j_company_id p - 1) = Some c \<and> r \<in> set (People_object s')
           \<and> is_active r \<and> UUID (j_guid p) = Inr (guid r) \<and> company_id r = Some (company_pk c)"
  using assms
proof (cases rule: reconcile_cases)
  case (same cur fds tgs frs s0 r rest)
  from candidate_effect [OF same(1)] obtain c where
    c: "company_lookup L (j_company_id p - 1) = Some c" "company_id cur = Some (company_pk c)"
       "UUID (j_guid p) = Inr (guid cur)"
    by blast
  from same(2) have "r \<in> set (People_active_filter s0 (\<lambda>r. guid r = guid cur))" by simp
  then have r: "r \<in> set (People_object s0)" "is_active r" "guid r = guid cur" by auto
  from same(3) have "company_id cur = company_id r"
    by (simp add: unchanged_def People_eq_def Let_def)
  with c r same(5) show ?thesis by auto
next
  case (replaced cur fds tgs frs s0 r rest)
  from candidate_effect [OF replaced(1)] obtain c where
    c: "company_lookup L (j_company_id p - 1) = Some c" "company_id cur = Some (company_pk c)"
       "UUID (j_guid p) = Inr (guid cur)" "is_active cur"
    by blast
  from replaced(6) have "People.truncate cur \<in> set (People_object s')" by simp
  with c show ?thesis by (intro exI [of _ c] exI [of _ "People.truncate cur"]) simp
next
  case (created cur fds tgs frs s0)
  from candidate_effect [OF created(1)] obtain c where
    c: "company_lookup L (j_company_id p - 1) = Some c" "company_id cur = Some (company_pk c)"
       "UUID (j_guid p) = Inr (guid cur)" "is_active cur"
    by blast
  from created(5) have "People.truncate cur \<in> set (People_object s')" by simp
  with c show ?thesis by (intro exI [of _ c] exI [of _ "People.truncate cur"]) simp
qed

lemma stable_row_kept:
  assumes "map stable ys = map stable xs @ new" and "r \<in> set xs"
  shows "\<exists>r' \<in> set ys. is_active r' = is_active r \<and> guid r' = guid r \<and> company_id r' = company_id r"
proof -
  from assms have "stable r \<in> set (map stable ys)" by simp
  then obtain r' where r': "r' \<in> set ys" "stable r' = stable r" by auto
  from stable_eq_fields [OF r'(2)] r'(1) show ?thesis by auto
qed

lemma reconcile_loop_linked:
  assumes "recorded_ok s cs" and "for_each (reconcile L) people cs s = (Inr cs', s')" and "p \<in> set people"
  shows "\<exists>c r. company_lookup L (j_company_id p - 1) = Some c \<and> r \<in> set (People_object s')
           \<and> is_active r \<and> UUID (j_guid p) = Inr (guid r) \<and> company_id r = Some (company_pk c)"
  using assms
proof (induction people arbitrary: cs s)
  case Nil
  then show ?case by simp
next
  case (Cons q people)
  from Cons.prems(2) obtain ca sa where
    st: "reconcile L q cs s = (Inr ca, sa)" and
    rest: "for_each (reconcile L) people ca sa = (Inr cs', s')"
    by (auto simp: for_each.simps split: prod.splits sum.splits)
  from reconcile_inv [OF Cons.prems(1) st] have ok: "recorded_ok sa ca" by blast
  show ?case
  proof (cases "p = q")
    case True
    from reconcile_linked [OF st] True obtain c r where
      a: "company_lookup L (j_company_id p - 1) = Some c" "r \<in> set (People_object sa)"
         "is_active r" "UUID (j_guid p) = Inr (guid r)" "company_id r = Some (company_pk c)"
      by blast
    from reconcile_loop_inv [OF ok rest] obtain new where
      "map stable (People_object s') = map stable (People_object sa) @ new" by blast
    from stable_row_kept [OF this a(2)] a show ?thesis by auto
  next
    case False
    with Cons.prems(3) have "p \<in> set people" by simp
    from Cons.IH [OF ok rest this] show ?thesis .
  qed
qed

lemma ingest_people_linked:
  assumes "distinct (map pk (People_object s))" and "ingest_people people company_lookup0 s = (Inr (), s')"
    and "p \<in> set people"
  shows "\<exists>c r. company_lookup0 (j_company_id p - 1) = Some c \<and> r \<in> set (People_object s')
           \<and> is_active r \<and> UUID (j_guid p) = Inr (guid r) \<and> company_id r = Some (company_pk c)"
proof -
  from assms(2) obtain h :: harvest and fl sa tl sb gl sc el sd cs s2 where
    l1: "create_lookup Food (foods h) None s = (Inr fl, sa)" and
    l2: "create_lookup Tag (tags h) None sa = (Inr tl, sb)" and
    l3: "create_lookup Gender (genders h) None sb = (Inr gl, sc)" and
    l4: "create_lookup EyeColor (eyecolors h) None sc = (Inr el, sd)" and
    p2: "reconcile_all \<lparr>foods_lookup = fl, tags_lookup = tl, gender_lookup = gl,
                eye_color_lookup = el, index_uuid = people_index_uuid h,
                company_lookup = company_lookup0\<rparr> people sd = (Inr cs, s2)" and
    p3: "link_all cs s2 = (Inr (), s')"
    by (auto simp: ingest_people_def then_do_Inr_iff lift_def)
  let ?L = "\<lparr>foods_lookup = fl, tags_lookup = tl, gender_lookup = gl,
                eye_color_lookup = el, index_uuid = people_index_uuid h,
                company_lookup = company_lookup0\<rparr>"
  have "only_dims s sa" by (rule preservesD [OF dims_create_lookup only_dims_refl l1])
  then have "only_dims s sb" by (rule preservesD [OF dims_create_lookup _ l2])
  then have "only_dims s sc" by (rule preservesD [OF dims_create_lookup _ l3])
  then have "only_dims s sd" by (rule preservesD [OF dims_create_lookup _ l4])
  from only_dims_tables(1) [OF this] assms(1) have ok: "recorded_ok sd []"
    by (simp add: recorded_ok_def)
  from reconcile_loop_linked [OF ok p2 [unfolded reconcile_all_def] assms(3)] obtain c r where
    a: "company_lookup0 (j_company_id p - 1) = Some c" "r \<in> set (People_object s2)"
       "is_active r" "UUID (j_guid p) = Inr (guid r)" "company_id r = Some (company_pk c)"
    by auto
  from reconcile_loop_inv [OF ok p2 [unfolded reconcile_all_def]]
  have ok2: "recorded_ok s2 cs" by blast
  then have d: "distinct (map (\<lambda>c. pk (fst c)) cs)" by (simp add: recorded_ok_def)
  from link_loop [OF ok2 subset_refl d p3 [unfolded link_all_def]]
  have "map stable (People_object s') = map stable (People_object s2) @ []" by simp
  from stable_row_kept [OF this a(2)] a show ?thesis by auto
qed

lemma missing_company_fails:
  assumes "distinct (map pk (People_object s))" and "p \<in> set people"
    and "company_lookup0 (j_company_id p - 1) = None"
  shows "\<exists>e s'. ingest_people people company_lookup0 s = (Inl e, s')"
proof -
  obtain r s' where run: "ingest_people people company_lookup0 s = (r, s')"
    by (cases "ingest_people people company_lookup0 s")
  show ?thesis
  proof (cases r)
    case (Inl e)
    with run show ?thesis by blast
  next
    case (Inr u)
    with run have "ingest_people people company_lookup0 s = (Inr (), s')" by simp
    from ingest_people_linked [OF assms(1) this assms(2)] assms(3) show ?thesis by simp
  qed
qed

text \<open>
  C1, as it is stated, fails: the record of C has \<^verbatim>\<open>company_id\<close> 1, the
  organization with index 1 is Bolt, and the individual is linked to Acme, whose index
  is 0.
\<close>

theorem company_index_counterexample:
  "ingest_data companies2 people5 db_empty = (Inr (), db5)
   \<and> map c_index (json_load companies2) = [0, 1]
   \<and> map j_company_id (json_load people5) = [1]
   \<and> map company_id (People_object db5) = [Some 0]
   \<and> Company_objects db5 = [\<lparr>company_pk = 0, company_name = ''Acme''\<rparr>,
                             \<lparr>company_pk = 1, company_name = ''Bolt''\<rparr>]"
  using run5
  by (simp add: companies2_def people5_def person_c_def db5_def db_orgs_c_def db_orgs_def
      db_empty_def row_c_def)

text \<open>
  C1, amended. Let the keys of the table be distinct. When \<^verbatim>\<open>ingest_companies\<close> and
  then \<^verbatim>\<open>ingest_people\<close> have returned, every record of the population has an active
  individual with its external identifier that is linked to the organization named in
  the record of the organization file whose index is \<^verbatim>\<open>company_id - 1\<close>. So a run in
  which some \<^verbatim>\<open>company_id - 1\<close> is no index of the organization file does not return:
  it raises (\<open>missing_company_fails\<close>).
\<close>

theorem company_resolved:
  assumes "distinct (map pk (People_object s0))"
    and "ingest_companies companies s0 = (Inr company_lookup0, s)"
    and "ingest_people people company_lookup0 s = (Inr (), s')"
    and "p \<in> set people"
  shows "\<exists>c \<in> set companies. c_index c = j_company_id p - 1 \<and>
           (\<exists>o' \<in> set (Company_objects s'). company_name o' = c_company c \<and>
              (\<exists>r \<in> set (People_object s'). is_active r \<and> UUID (j_guid p) = Inr (guid r)
                  \<and> company_id r = Some (company_pk o')))"
proof -
  note ce = ingest_companies_effect [OF assms(2)]
  with assms(1) have d: "distinct (map pk (People_object s))" by simp
  from ingest_people_linked [OF d assms(3,4)] obtain o' r where
    a: "company_lookup0 (j_company_id p - 1) = Some o'" "r \<in> set (People_object s')"
       "is_active r" "UUID (j_guid p) = Inr (guid r)" "company_id r = Some (company_pk o')"
    by blast
  from ce a(1) obtain c where
    c: "c \<in> set companies" "c_index c = j_company_id p - 1" "company_name o' = c_company c"
       "o' \<in> set (Company_objects s)"
    by blast
  from preservesD [OF frame_ingest_people friends_frame_refl assms(3)]
  have "Company_objects s' = Company_objects s" by (simp add: friends_frame_def)
  with a c show ?thesis by auto
qed

theorem company_resolved_witness:
  "ingest_companies (json_load companies2) db_empty = (Inr company_lookup2, db_orgs)
   \<and> ingest_people (json_load people5) company_lookup2 db_orgs = (Inr (), db_orgs_c)
   \<and> (\<exists>c \<in> set (json_load companies2). c_index c = j_company_id person_c - 1 \<and>
           (\<exists>o' \<in> set (Company_objects db_orgs_c). company_name o' = c_company c \<and>
              (\<exists>r \<in> set (People_object db_orgs_c). is_active r \<and> UUID (j_guid person_c) = Inr (guid r)
                  \<and> company_id r = Some (company_pk o'))))"
proof -
  have d: "distinct (map pk (People_object db_empty))"
    by (simp add: db_empty_def)
  have m: "person_c \<in> set (json_load people5)"
    by (simp add: people5_def)
  from company_resolved [OF d eval_orgs eval_people5 m] eval_orgs eval_people5 show ?thesis
    by blast
qed

section \<open>The registration timestamp\<close>

lemma not_digit_literals [simp]:
  "\<not> is_digit (CHR ''-'')" "\<not> is_digit (CHR ''T'')" "\<not> is_digit (CHR '':'')" "\<not> is_digit (CHR ''+'')"
  by (simp_all add: is_digit_def)

lemma parse_canonical:
  assumes dg: "is_digit y1" "is_digit y2" "is_digit y3" "is_digit y4" "is_digit m1" "is_digit m2"
      "is_digit d1" "is_digit d2" "is_digit h1" "is_digit h2" "is_digit n1" "is_digit n2"
      "is_digit o1" "is_digit o2" "is_digit o3" "is_digit o4"
    and sg: "sg = CHR ''+'' \<or> sg = CHR ''-''" and sep: "sep = '':'' \<or> sep = []"
    and ok: "1 \<le> int10 [y1, y2, y3, y4]"
      "1 \<le> int10 [m1, m2]" "int10 [m1, m2] \<le> 12"
      "1 \<le> int10 [d1, d2]" "int10 [d1, d2] \<le> days_in_month (int10 [y1, y2, y3, y4]) (int10 [m1, m2])"
      "int10 [h1, h2] \<le> 23" "int10 [n1, n2] \<le> 59" "60 * int10 [o1, o2] + int10 [o3, o4] < 1440"
  shows "parse_datetime ([y1, y2, y3, y4, CHR ''-'', m1, m2, CHR ''-'', d1, d2, CHR ''T'', h1, h2,
            CHR '':'', n1, n2, sg, o1, o2] @ sep @ [o3, o4])
         = Inr (Some \<lparr>year = int10 [y1, y2, y3, y4], month = int10 [m1, m2], day = int10 [d1, d2],
                  hour = int10 [h1, h2], minute = int10 [n1, n2], second = 0, microsecond = 0,
                  tzinfo = Some ((if sg = CHR ''-'' then - 1 else 1)
                                  * int (60 * int10 [o1, o2] + int10 [o3, o4]))\<rparr>)"
proof -
  let ?tz = "sg # [o1, o2] @ sep @ [o3, o4]"
  have tz: "match_tzinfo ?tz = Some (Some ?tz)"
    using dg sg sep by (auto simp: match_tzinfo_def at_end_def digit_run_def expect_def)
  have off: "tz_offset ?tz = (if sg = CHR ''-'' then - 1 else 1) * int (60 * int10 [o1, o2] + int10 [o3, o4])"
    using sg sep by (auto simp: tz_offset_def)
  have re: "datetime_re ([y1, y2, y3, y4, CHR ''-'', m1, m2, CHR ''-'', d1, d2, CHR ''T'', h1, h2,
            CHR '':'', n1, n2, sg, o1, o2] @ sep @ [o3, o4])
      = Some \<lparr>g_year = [y1, y2, y3, y4], g_month = [m1, m2], g_day = [d1, d2], g_hour = [h1, h2],
              g_minute = [n1, n2], g_second = None, g_microsecond = None, g_tzinfo = Some ?tz\<rparr>"
    using dg sg tz by (auto simp: datetime_re_def digit_run_def expect_def match_second_def is_digit_def)
  have "int10 [y1, y2, y3, y4] \<le> 9999"
    using dg(1-4) unfolding int10_def is_digit_def foldl.simps by arith
  then show ?thesis
    unfolding parse_datetime_def re using ok off by (auto simp: Let_def)
qed

lemma remove_spaces_padded:
  assumes "length ns = length cs" and "CHR '' '' \<notin> set cs"
  shows "remove_spaces (concat (map2 (\<lambda>n c. replicate n (CHR '' '') @ [c]) ns cs)
           @ replicate k (CHR '' '')) = cs"
  using assms
proof (induction ns cs rule: list_induct2)
  case Nil
  then show ?case by (simp add: remove_spaces_def)
next
  case (Cons n ns c cs)
  then show ?case by (auto simp: remove_spaces_def)
qed

lemma digit_not_space: "is_digit c \<Longrightarrow> c \<noteq> CHR '' ''"
  by (auto simp: is_digit_def)

lemma candidate_returns:
  assumes "getitems (foods_lookup L) (j_favouriteFood person) = Inr fs"
    and "getitems (tags_lookup L) (j_tags person) = Inr tg"
    and "getitems (index_uuid L) (j_friends person) = Inr frs"
    and "parse_datetime (remove_spaces (j_registered person)) = Inr reg"
    and "UUID (j_guid person) = Inr g"
    and "company_lookup L (j_company_id person - 1) = Some c"
    and "gender_lookup L (j_gender person) = Some gd"
    and "eye_color_lookup L (j_eyeColor person) = Some ec"
  shows "\<exists>cur. candidate L person s
            = (Inr (cur, map ent_pk fs, map ent_pk tg, frs),
               s\<lparr>uuid4_next := uuid4_next s + 1, clock := clock s + 2\<rparr>)
          \<and> registered cur = reg \<and> pk cur = uuid4_next s"
  using assms
  by (simp add: candidate_def then_do_def bind_result_def lift_def ret_def uuid4_def now_def
      getitem_def)

lemma People_save_not_refused:
  assumes "registered p \<noteq> None" and "adding \<longrightarrow> pk p \<notin> pk ` set (People_object s)"
  shows "\<exists>s'. People_save adding p s = (Inr (), s')
          \<and> pk ` set (People_object s') = insert (pk p) (pk ` set (People_object s))"
  using assms
  by (cases adding) (auto simp: People_save_def save_row_def)

lemma persist_not_refused:
  assumes "registered cur \<noteq> None" and "pk cur \<notin> pk ` set (People_object s)"
  shows "\<exists>cs' s'. persist cur fds tgs frs cs s = (Inr cs', s')"
proof -
  from People_save_not_refused [of cur True s] assms obtain s1 where
    a: "People_save True cur s = (Inr (), s1)" by auto
  obtain s2 where b: "tags_set cur tgs s1 = (Inr (), s2)" by (simp add: tags_set_def)
  obtain s3 where c: "favourite_food_set cur fds s2 = (Inr (), s3)" by (simp add: favourite_food_set_def)
  from People_save_not_refused [of cur False s3] assms(1) obtain s4 where
    d: "People_save False cur s3 = (Inr (), s4)" by auto
  from a b c d show ?thesis
    by (simp add: persist_def then_do_def bind_result_def ret_def)
qed

lemma reconcile_not_refused:
  assumes cand: "candidate L p s = (Inr (cur, fds, tgs, frs), s0)"
    and reg: "registered cur \<noteq> None"
    and fresh: "uuid4_next s \<notin> pk ` set (People_object s)"
    and full: "\<forall>r \<in> set (People_object s). registered r \<noteq> None"
  shows "\<exists>cs' s'. reconcile L p cs s = (Inr cs', s')"
proof -
  note ce = candidate_effect [OF cand]
  from ce have rows0: "People_object s0 = People_object s" by simp
  from ce fresh rows0 have new: "pk cur \<notin> pk ` set (People_object s0)" by simp
  show ?thesis
  proof (cases "People_active_filter s0 (\<lambda>r. guid r = guid cur)")
    case Nil
    with persist_not_refused [OF reg new, of fds tgs frs cs] cand show ?thesis
      by (auto simp: reconcile_def then_do_def bind_result_def)
  next
    case (Cons r rs)
    show ?thesis
    proof (cases "unchanged s0 cur (instance_of r) fds tgs frs")
      case True
      with Cons cand show ?thesis
        by (simp add: reconcile_def then_do_def bind_result_def)
    next
      case False
      from Cons have "r \<in> set (People_active_filter s0 (\<lambda>r. guid r = guid cur))" by simp
      then have rin: "r \<in> set (People_object s)" using rows0 by simp
      with full have rreg: "registered r \<noteq> None" by blast
      let ?e = "(instance_of r)\<lparr>updated_at := clock s0, active := Some False\<rparr>"
      let ?s1 = "s0\<lparr>clock := clock s0 + 1\<rparr>"
      have n: "now s0 = (Inr (clock s0), ?s1)" by (simp add: now_def)
      from rreg have "registered ?e \<noteq> None" by (simp add: instance_of_def People.extend_def)
      from People_save_not_refused [OF this, of False ?s1] obtain s2 where
        sv: "People_save False ?e ?s1 = (Inr (), s2)"
          "pk ` set (People_object s2) = insert (pk ?e) (pk ` set (People_object ?s1))"
        by auto
      have "pk ?e = pk r" by (simp add: instance_of_def People.extend_def)
      with sv(2) rin rows0 have "pk ` set (People_object s2) = pk ` set (People_object s)"
        by auto
      with fresh ce have "pk cur \<notin> pk ` set (People_object s2)" by simp
      from persist_not_refused [OF reg this, of fds tgs frs cs] obtain cs' s' where
        "persist cur fds tgs frs cs s2 = (Inr cs', s')" by blast
      with Cons False cand n sv(1) show ?thesis
        by (simp add: reconcile_def then_do_def bind_result_def Let_def)
    qed
  qed
qed

text \<open>
  C2, as it is stated, fails: with the space between date and time removed as
  well, \<^verbatim>\<open>parse_datetime\<close> does not match and returns \<^verbatim>\<open>None\<close>, and the run fails
  when the individual is saved without \<^verbatim>\<open>registered\<close>.
\<close>

theorem registered_with_space_counterexample:
  "parse_datetime (remove_spaces ''2020-01-03 00:00 +00:00'') = Inr None
   \<and> fst (ingest_data companies1 people4 db_empty) = Inl IntegrityError"
  by (simp add: run cong: bind_result_weak_cong)

text \<open>
  C2, amended. Let \<^verbatim>\<open>registered\<close> be \<^verbatim>\<open>YYYY-MM-DDTHH:MM\<close> followed by
  \<^verbatim>\<open>+HH:MM\<close>, \<^verbatim>\<open>-HH:MM\<close>, \<^verbatim>\<open>+HHMM\<close> or \<^verbatim>\<open>-HHMM\<close>, with any number of
  spaces before each of its characters and at its end (\<open>ns\<close> and \<open>k\<close> count them), and
  with a date and a time that exist and an offset below 24 hours. Let the other lookups
  of the record resolve. Then the second pass removes the spaces and parses the rest:
  the candidate individual is built, and its \<^verbatim>\<open>registered\<close> is the timestamp of these
  components. The record is then not refused by the database (no
  \<^verbatim>\<open>IntegrityError\<close>, which is how the run fails on the format of the claim), provided
  the key drawn for it is new and no row of the table lacks its \<^verbatim>\<open>registered\<close>.
\<close>

theorem registered_is_parsed:
  assumes "j_registered person =
             concat (map2 (\<lambda>n c. replicate n (CHR '' '') @ [c]) ns
               ([y1, y2, y3, y4, CHR ''-'', m1, m2, CHR ''-'', d1, d2, CHR ''T'', h1, h2,
                 CHR '':'', n1, n2, sg, o1, o2] @ sep @ [o3, o4]))
             @ replicate k (CHR '' '')"
    and "length ns = 21 + length sep"
    and "list_all is_digit [y1, y2, y3, y4, m1, m2, d1, d2, h1, h2, n1, n2, o1, o2, o3, o4]"
    and "sg = CHR ''+'' \<or> sg = CHR ''-''" and "sep = '':'' \<or> sep = []"
    and "1 \<le> int10 [y1, y2, y3, y4]" and "1 \<le> int10 [m1, m2]" and "int10 [m1, m2] \<le> 12"
    and "1 \<le> int10 [d1, d2]"
    and "int10 [d1, d2] \<le> days_in_month (int10 [y1, y2, y3, y4]) (int10 [m1, m2])"
    and "int10 [h1, h2] \<le> 23" and "int10 [n1, n2] \<le> 59"
    and "60 * int10 [o1, o2] + int10 [o3, o4] < 1440"
    and "getitems (foods_lookup L) (j_favouriteFood person) = Inr fs"
    and "getitems (tags_lookup L) (j_tags person) = Inr tg"
    and "getitems (index_uuid L) (j_friends person) = Inr frs"
    and "UUID (j_guid person) = Inr g"
    and "company_lookup L (j_company_id person - 1) = Some c"
    and "gender_lookup L (j_gender person) = Some gd"
    and "eye_color_lookup L (j_eyeColor person) = Some ec"
    and "uuid4_next s \<notin> pk ` set (People_object s)"
    and "\<forall>r \<in> set (People_object s). registered r \<noteq> None"
  shows "\<exists>cur. candidate L person s
            = (Inr (cur, map ent_pk fs, map ent_pk tg, frs),
               s\<lparr>uuid4_next := uuid4_next s + 1, clock := clock s + 2\<rparr>)
          \<and> registered cur
            = Some \<lparr>year = int10 [y1, y2, y3, y4], month = int10 [m1, m2], day = int10 [d1, d2],
                  hour = int10 [h1, h2], minute = int10 [n1, n2], second = 0, microsecond = 0,
                  tzinfo = Some ((if sg = CHR ''-'' then - 1 else 1)
                                  * int (60 * int10 [o1, o2] + int10 [o3, o4]))\<rparr>
          \<and> fst (reconcile L person cs s) \<noteq> Inl IntegrityError"
proof -
  let ?canon = "[y1, y2, y3, y4, CHR ''-'', m1, m2, CHR ''-'', d1, d2, CHR ''T'', h1, h2,
                 CHR '':'', n1, n2, sg, o1, o2] @ sep @ [o3, o4]"
  let ?T = "\<lparr>year = int10 [y1, y2, y3, y4], month = int10 [m1, m2], day = int10 [d1, d2],
                  hour = int10 [h1, h2], minute = int10 [n1, n2], second = 0, microsecond = 0,
                  tzinfo = Some ((if sg = CHR ''-'' then - 1 else 1)
                                  * int (60 * int10 [o1, o2] + int10 [o3, o4]))\<rparr>"
  have nosp: "CHR '' '' \<notin> set ?canon"
    using assms(3,4,5) by (auto dest: digit_not_space)
  have len: "length ns = length ?canon"
    using assms(2) by simp
  have strip: "remove_spaces (j_registered person) = ?canon"
    unfolding assms(1) by (rule remove_spaces_padded [OF len nosp])
  have "parse_datetime ?canon = Inr (Some ?T)"
    using assms(3-13) by (intro parse_canonical) simp_all
  with strip have parse: "parse_datetime (remove_spaces (j_registered person)) = Inr (Some ?T)"
    by simp
  from candidate_returns [OF assms(14-16) parse assms(17-20), of s] obtain cur where
    cand: "candidate L person s
            = (Inr (cur, map ent_pk fs, map ent_pk tg, frs),
               s\<lparr>uuid4_next := uuid4_next s + 1, clock := clock s + 2\<rparr>)"
    and reg: "registered cur = Some ?T"
    by blast
  from reg have "registered cur \<noteq> None" by simp
  from reconcile_not_refused [OF cand this assms(21,22), of cs]
  have "fst (reconcile L person cs s) \<noteq> Inl IntegrityError" by auto
  with cand reg show ?thesis by blast
qed

theorem registered_is_parsed_witness:
  "remove_spaces (j_registered person_d) = ''2016-07-13T12:29-10:00''
   \<and> (\<exists>cur. candidate lookups1 person_d db1
            = (Inr (cur, [1], [3], [11, 12]), db1\<lparr>uuid4_next := uuid4_next db1 + 1, clock := clock db1 + 2\<rparr>)
          \<and> registered cur
            = Some \<lparr>year = 2016, month = 7, day = 13, hour = 12, minute = 29, second = 0,
                  microsecond = 0, tzinfo = Some (- 600)\<rparr>
          \<and> fst (reconcile lookups1 person_d [] db1) \<noteq> Inl IntegrityError)"
proof -
  have a: "j_registered person_d =
             concat (map2 (\<lambda>n c. replicate n (CHR '' '') @ [c])
               [1, 0, 0, 0, 0, 0, 0, 0, 0, 0, 1, 0, 0, 0, 0, 0, 2, 0, 0, 0, 0, 0]
               ([CHR ''2'', CHR ''0'', CHR ''1'', CHR ''6'', CHR ''-'', CHR ''0'', CHR ''7'', CHR ''-'',
                 CHR ''1'', CHR ''3'', CHR ''T'', CHR ''1'', CHR ''2'', CHR '':'', CHR ''2'', CHR ''9'',
                 CHR ''-'', CHR ''1'', CHR ''0''] @ '':'' @ [CHR ''0'', CHR ''0'']))
             @ replicate 1 (CHR '' '')"
    by (simp add: person_d_def person_a_def numeral_2_eq_2)
  have b: "remove_spaces (j_registered person_d) = ''2016-07-13T12:29-10:00''"
    by (simp add: person_d_def person_a_def remove_spaces_def)
  have c: "uuid4_next db1 \<notin> pk ` set (People_object db1)"
    "\<forall>r \<in> set (People_object db1). registered r \<noteq> None"
    by (simp_all add: db1_def row_a_def row_b_def row_c_def)
  have d: "getitems (foods_lookup lookups1) (j_favouriteFood person_d)
             = Inr [\<lparr>ent_pk = 1, ent_key = ''apple'', food_type = Some FRUIT\<rparr>]"
    "getitems (tags_lookup lookups1) (j_tags person_d) = Inr [\<lparr>ent_pk = 3, ent_key = ''x'', food_type = None\<rparr>]"
    "getitems (index_uuid lookups1) (j_friends person_d) = Inr [11, 12]"
    "UUID (j_guid person_d) = Inr 10"
    "company_lookup lookups1 (j_company_id person_d - 1) = Some \<lparr>company_pk = 0, company_name = ''Acme''\<rparr>"
    "gender_lookup lookups1 (j_gender person_d) = Some \<lparr>ent_pk = 4, ent_key = ''female'', food_type = None\<rparr>"
    "eye_color_lookup lookups1 (j_eyeColor person_d) = Some \<lparr>ent_pk = 6, ent_key = ''brown'', food_type = None\<rparr>"
    by (simp_all add: person_d_def person_a_def lookups1_def getitem_def UUID_def strip_chars_def
        hex_val_def py_isspace_def int16_def)
  from registered_is_parsed [OF a _ _ _ _ _ _ _ _ _ _ _ _ d c, of "[]"] b
  show ?thesis
    by (simp add: int10_def is_digit_def days_in_month_def is_leap_def)
qed

section \<open>The version that is replaced\<close>

text \<open>
  C3. The code does not keep the invariant: after B has been renamed and ingested again,
  two rows with B's external identifier are active.
\<close>

theorem two_active_versions:
  "ingest_data companies1 people1 db_empty = (Inr (), db1)
   \<and> ingest_data companies1 people2 db1 = (Inr (), db2)
   \<and> map guid (filter is_active (People_object db2)) = [10, 11, 12, 11]"
  using run1 run2 by (simp add: db2_def db1_def row_a_def row_b_def row_c_def)

text \<open>
  C5. The code does not deactivate the version it replaces: B's former row has its
  \<^verbatim>\<open>updated_at\<close> stamped (11, it was 3) and is still active, next to the new row.
\<close>

theorem replaced_version_stays_active:
  "ingest_data companies1 people2 db1 = (Inr (), db2)
   \<and> People_object db1 ! 1 = row_b
   \<and> People_object db2 ! 1 = row_b\<lparr>updated_at := 11\<rparr>
   \<and> is_active (row_b\<lparr>updated_at := 11\<rparr>)
   \<and> People_object db2 ! 3 = row_b\<lparr>pk := 13, name := ''Bb'', created_at := 9, updated_at := 10\<rparr>
   \<and> related_all 13 (People_tags db2) = [3] \<and> related_all 13 (PeopleToFood db2) = [2]"
  using run2 by (simp add: related_all_def db2_def db1_def row_b_def)

text \<open>
  C6. The population file \<open>people2\<close> was ingested into \<open>db1\<close>; ingested once more, unchanged
  (with another organization file, so that the pair is new), it adds a row for B and
  stamps B's oldest row: the record is compared with that row, which should have been
  deactivated, and not with the version that equals it.
\<close>

theorem unchanged_file_adds_row:
  "ingest_data companies1 people2 db1 = (Inr (), db2)
   \<and> ingest_data companies2 people2 db2 = (Inr (), db3)
   \<and> length (People_object db2) = 4 \<and> length (People_object db3) = 5
   \<and> People_object db3 ! 4 = row_b\<lparr>pk := 18, name := ''Bb'', created_at := 17, updated_at := 18\<rparr>
   \<and> updated_at (People_object db2 ! 1) = 11 \<and> updated_at (People_object db3 ! 1) = 19"
  using run2 run3 by (simp add: db3_def db2_def db1_def row_b_def)

end
